theory Spec2Isabelle
  imports Main "HOL-Library.Sublist" "HOL-Library.List_Lexorder" "HOL-Library.AList"
begin

section \<open>Python values\<close>

text \<open>
  A Python \<open>str\<close> is the list of its Unicode code points. ASCII literals of the source are
  written \<open>ascii ''...''\<close>; the Chinese literals are given by their code points.
\<close>

type_synonym pystr = "nat list"

definition ascii :: "string \<Rightarrow> pystr" where
  "ascii s = map of_char s"

text \<open>
  The exception classes the code tells apart in its \<open>except\<close> clauses, and the ones the
  interpreter raises in the modelled code. Every exception of the model is an instance of
  \<open>Exception\<close>; \<open>KeyboardInterrupt\<close> and \<open>SystemExit\<close> are not modelled.
\<close>

datatype exn =
    JSONDecodeError
  | RequestException
  | AttributeError
  | TypeError
  | ValueError
  | UnboundLocalError
  | IndexError
  | OtherException pystr

text \<open>A \<open>dict\<close> with string keys, as the list of its items; \<open>d.get(k, default)\<close>.\<close>

definition dict_get :: "(pystr \<times> 'v) list \<Rightarrow> pystr \<Rightarrow> 'v \<Rightarrow> 'v" where
  "dict_get d k dflt = (case map_of d k of None \<Rightarrow> dflt | Some v \<Rightarrow> v)"

section \<open>config/settings.py\<close>

definition MAX_RETRIES :: nat where
  "MAX_RETRIES = 3"

definition RETRY_DELAY :: int where
  "RETRY_DELAY = 1"

definition MAX_CONTENT_LENGTH :: nat where
  "MAX_CONTENT_LENGTH = 5000"

text \<open>The settings read from the environment (\<open>int(os.getenv(...))\<close>).\<close>

record settings =
  MAX_RESEARCH_ROUNDS :: int
  RESULTS_PER_SEARCH :: int
  MAX_CONCURRENT_REQUESTS :: int

section \<open>External effects\<close>

text \<open>
  The outside world (search provider, network, clock) is a state of an arbitrary type
  \<open>'w\<close>; a collaborator is any function that takes its arguments and the world and returns
  an exception or a value together with the next world. The program's own effects (calls to
  collaborators, sleeps, log records) are appended to \<open>events\<close>, oldest first.
\<close>

datatype log_record =
    SearchStarted pystr int          \<comment> \<open>info: searching \<open>query\<close>, at most \<open>max_results\<close>\<close>
  | SearchSucceeded nat              \<comment> \<open>info: search succeeded with \<open>len(results)\<close> results\<close>
  | SearchAttemptFailed nat exn      \<comment> \<open>warning: attempt \<open>retry_count\<close>/\<open>MAX_RETRIES\<close> failed\<close>
  | SearchWaiting int                \<comment> \<open>info: waiting \<open>delay\<close> seconds\<close>
  | SearchGaveUp pystr               \<comment> \<open>error: search finally failed\<close>
  | ExtractCacheHit pystr            \<comment> \<open>debug: content taken from the cache\<close>
  | ExtractStarted pystr             \<comment> \<open>info: extracting \<open>url\<close>\<close>
  | ExtractNoMainContent pystr       \<comment> \<open>warning: no main content found\<close>
  | ExtractSucceeded pystr nat       \<comment> \<open>info: extracted \<open>len(content)\<close> characters\<close>
  | ExtractRequestFailed nat pystr exn  \<comment> \<open>warning: request attempt failed\<close>
  | ExtractGaveUp pystr              \<comment> \<open>error: extraction finally failed\<close>
  | ExtractParseFailed pystr exn     \<comment> \<open>error: parsing failed\<close>
  | ExtractTaskFailed pystr exn      \<comment> \<open>error: the task of \<open>url\<close> raised\<close>
  | ApiCallFailed exn                \<comment> \<open>error: the AI API call failed\<close>
  | AnalysisStarted pystr            \<comment> \<open>info: analysing the results of \<open>query\<close>\<close>
  | AnalysisDone nat                 \<comment> \<open>info: analysis done, \<open>len(key_findings)\<close> findings\<close>
  | AnalysisNotJson                  \<comment> \<open>warning: the response is not valid JSON\<close>
  | SynthesisStarted pystr           \<comment> \<open>info: synthesising the results of \<open>topic\<close>\<close>
  | SynthesisDone                    \<comment> \<open>info: report generated\<close>
  | SynthesisFailed exn              \<comment> \<open>error: report generation failed\<close>

datatype event =
    Call_ddgs_text pystr int         \<comment> \<open>\<open>self.ddgs.text(query, max_results=max_results)\<close>\<close>
  | Call_session_get pystr           \<comment> \<open>\<open>self.session.get(url, ...)\<close>\<close>
  | Call_sleep int                   \<comment> \<open>\<open>time.sleep(delay)\<close>\<close>
  | Log log_record


record 'w sys =
  world :: 'w
  events :: "event list"

section \<open>core/search_engine.py\<close>

record search_record =
  title :: pystr
  url :: pystr
  snippet :: pystr





text \<open>\<open>if max_results is None: max_results = settings.RESULTS_PER_SEARCH\<close>\<close>

definition max_results_or_default :: "settings \<Rightarrow> int option \<Rightarrow> int" where
  "max_results_or_default cfg max_results =
     (case max_results of None \<Rightarrow> RESULTS_PER_SEARCH cfg | Some m \<Rightarrow> m)"







definition default_settings :: settings where
  "default_settings =
     \<lparr> MAX_RESEARCH_ROUNDS = 3, RESULTS_PER_SEARCH = 10, MAX_CONCURRENT_REQUESTS = 5 \<rparr>"

section \<open>Python string operations\<close>

text \<open>The code points for which \<open>str.isspace\<close> holds; \<open>str.strip()\<close> removes them.\<close>

definition py_isspace :: "nat \<Rightarrow> bool" where
  "py_isspace c =
     ((9 \<le> c \<and> c \<le> 13) \<or> (28 \<le> c \<and> c \<le> 32) \<or> c = 133 \<or> c = 160 \<or> c = 5760 \<or>
      (8192 \<le> c \<and> c \<le> 8202) \<or> c = 8232 \<or> c = 8233 \<or> c = 8239 \<or> c = 8287 \<or> c = 12288)"

definition strip :: "pystr \<Rightarrow> pystr" where
  "strip s = rev (dropWhile py_isspace (rev (dropWhile py_isspace s)))"

text \<open>\<open>text.split('\n')\<close>: always at least one piece.\<close>

fun split_on :: "nat \<Rightarrow> pystr \<Rightarrow> pystr list" where
  "split_on sep [] = [[]]"
| "split_on sep (c # cs) =
     (if c = sep then [] # split_on sep cs
      else (case split_on sep cs of
              [] \<Rightarrow> [[c]]
            | l # ls \<Rightarrow> (c # l) # ls))"

text \<open>\<open>sep.join(parts)\<close>\<close>

fun join :: "pystr \<Rightarrow> pystr list \<Rightarrow> pystr" where
  "join sep [] = []"
| "join sep [p] = p"
| "join sep (p # q # ps) = p @ sep @ join sep (q # ps)"

text \<open>\<open>str(i)\<close> for a natural number: its decimal digits.\<close>

fun str_nat :: "nat \<Rightarrow> pystr" where
  "str_nat n = (if n < 10 then [48 + n] else str_nat (n div 10) @ [48 + n mod 10])"

declare str_nat.simps [simp del]

section \<open>core/content_extractor.py\<close>

text \<open>A \<open>ContentExtractor\<close>: the world, the events and \<open>self.cache\<close>.\<close>

record 'w fetcher = "'w sys" +
  cache :: "pystr \<rightharpoonup> pystr"

text \<open>
  Two external parts: \<open>http_get\<close> is \<open>session.get\<close>, \<open>raise_for_status\<close> and the decoding
  of the body, it raises or returns the HTML; \<open>main_text\<close> is the BeautifulSoup part (parse,
  drop the noise tags, pick the first matching container or the body, \<open>get_text\<close>): it
  raises, or returns \<open>None\<close> when there is no main content, or the text.
\<close>

type_synonym 'w http_get = "pystr \<Rightarrow> 'w \<Rightarrow> (exn + pystr) \<times> 'w"
type_synonym main_text = "pystr \<Rightarrow> exn + pystr option"

text \<open>The cleaning of blank lines and the length limit.\<close>

definition clean_content :: "pystr \<Rightarrow> pystr" where
  "clean_content text =
     (let lines = map strip (filter (\<lambda>line. strip line \<noteq> []) (split_on 10 text));
          content = join [10] lines
      in if length content > MAX_CONTENT_LENGTH
         then take MAX_CONTENT_LENGTH content @ ascii ''...''
         else content)"

function extract_retry ::
  "'w http_get \<Rightarrow> main_text \<Rightarrow> pystr \<Rightarrow> nat \<Rightarrow> ('w, 'z) fetcher_scheme
     \<Rightarrow> (exn + pystr option) \<times> ('w, 'z) fetcher_scheme" where
  "extract_retry http_get main_text u retry_count s =
     (if retry_count < MAX_RETRIES then
        (case http_get u (world s) of
           (Inr html, w) \<Rightarrow>
             (let s1 = s\<lparr>world := w, events := events s @ [Call_session_get u]\<rparr>
              in case main_text html of
                   Inl e \<Rightarrow>
                     (Inr None, s1\<lparr>events := events s1 @ [Log (ExtractParseFailed u e)]\<rparr>)
                 | Inr None \<Rightarrow>
                     (Inr None, s1\<lparr>events := events s1 @ [Log (ExtractNoMainContent u)]\<rparr>)
                 | Inr (Some text) \<Rightarrow>
                     (let content = clean_content text
                      in (Inr (Some content),
                          s1\<lparr>cache := (cache s1)(u \<mapsto> content),
                             events := events s1 @ [Log (ExtractSucceeded u (length content))]\<rparr>)))
         | (Inl e, w) \<Rightarrow>
             (let s1 = s\<lparr>world := w, events := events s @ [Call_session_get u]\<rparr>
              in if e = RequestException then
                   (let retry_count1 = retry_count + 1;
                        s2 = s1\<lparr>events := events s1 @ [Log (ExtractRequestFailed retry_count1 u e)]\<rparr>
                    in if retry_count1 < MAX_RETRIES then
                         (let delay = RETRY_DELAY * 2 ^ (retry_count1 - 1)
                          in extract_retry http_get main_text u retry_count1
                               (s2\<lparr>events := events s2 @ [Call_sleep delay]\<rparr>))
                       else (Inr None, s2\<lparr>events := events s2 @ [Log (ExtractGaveUp u)]\<rparr>))
                 else (Inr None, s1\<lparr>events := events s1 @ [Log (ExtractParseFailed u e)]\<rparr>)))
      else (Inr None, s))"
  by pat_completeness auto
termination
  by (relation "measure (\<lambda>(http_get, main_text, u, retry_count, s). MAX_RETRIES - retry_count)")
     auto

declare extract_retry.simps [simp del]

definition extract_content ::
  "'w http_get \<Rightarrow> main_text \<Rightarrow> pystr \<Rightarrow> ('w, 'z) fetcher_scheme
     \<Rightarrow> (exn + pystr option) \<times> ('w, 'z) fetcher_scheme" where
  "extract_content http_get main_text u s =
     (if u \<in> dom (cache s)
      then (Inr (cache s u), s\<lparr>events := events s @ [Log (ExtractCacheHit u)]\<rparr>)
      else extract_retry http_get main_text u 0
             (s\<lparr>events := events s @ [Log (ExtractStarted u)]\<rparr>))"

text \<open>A sequence of \<open>extract_content\<close> calls on one extractor, one after the other.\<close>

fun extract_calls ::
  "'w http_get \<Rightarrow> main_text \<Rightarrow> pystr list \<Rightarrow> ('w, 'z) fetcher_scheme \<Rightarrow> ('w, 'z) fetcher_scheme" where
  "extract_calls http_get main_text [] s = s"
| "extract_calls http_get main_text (u # us) s =
     extract_calls http_get main_text us (snd (extract_content http_get main_text u s))"

text \<open>
  \<open>extract_multiple\<close>. The task that the pool runs for each url (written \<open>u\<close>) is a parameter
  (\<open>self.extract_content\<close> in the source), so that a task that raises is covered. The pool
  is modelled with the tasks running one after the other in the order of submission, each
  future collected as its task ends: the interleaving of the worker threads is not modelled.
  \<open>ThreadPoolExecutor\<close> raises \<open>ValueError\<close> for \<open>max_workers <= 0\<close>.
\<close>

type_synonym 's task = "pystr \<Rightarrow> 's \<Rightarrow> (exn + pystr option) \<times> 's"

fun collect_futures ::
  "('w, 'z) sys_scheme task \<Rightarrow> pystr list \<Rightarrow> (pystr \<times> pystr) list \<Rightarrow> ('w, 'z) sys_scheme
     \<Rightarrow> (pystr \<times> pystr) list \<times> ('w, 'z) sys_scheme" where
  "collect_futures task [] results s = (results, s)"
| "collect_futures task (u # us) results s =
     (case task u s of
        (Inr content, s1) \<Rightarrow>
          (case content of
             Some c \<Rightarrow>
               (if c \<noteq> [] then collect_futures task us (AList.update u c results) s1
                else collect_futures task us results s1)
           | None \<Rightarrow> collect_futures task us results s1)
      | (Inl e, s1) \<Rightarrow>
          collect_futures task us results
            (s1\<lparr>events := events s1 @ [Log (ExtractTaskFailed u e)]\<rparr>))"

text \<open>\<open>if max_workers is None: max_workers = settings.MAX_CONCURRENT_REQUESTS\<close>\<close>

definition max_workers_or_default :: "settings \<Rightarrow> int option \<Rightarrow> int" where
  "max_workers_or_default cfg max_workers =
     (case max_workers of None \<Rightarrow> MAX_CONCURRENT_REQUESTS cfg | Some n \<Rightarrow> n)"

definition extract_multiple_with ::
  "('w, 'z) sys_scheme task \<Rightarrow> settings \<Rightarrow> pystr list \<Rightarrow> int option \<Rightarrow> ('w, 'z) sys_scheme
     \<Rightarrow> (exn + (pystr \<times> pystr) list) \<times> ('w, 'z) sys_scheme" where
  "extract_multiple_with task cfg us max_workers s =
     (let max_workers1 = max_workers_or_default cfg max_workers
      in if max_workers1 \<le> 0 then (Inl ValueError, s)
         else (case collect_futures task us [] s of
                 (results, s1) \<Rightarrow> (Inr results, s1)))"

definition extract_multiple ::
  "'w http_get \<Rightarrow> main_text \<Rightarrow> settings \<Rightarrow> pystr list \<Rightarrow> int option \<Rightarrow> ('w, 'z) fetcher_scheme
     \<Rightarrow> (exn + (pystr \<times> pystr) list) \<times> ('w, 'z) fetcher_scheme" where
  "extract_multiple http_get main_text =
     extract_multiple_with (extract_content http_get main_text)"

text \<open>
  What each task of a run of \<open>extract_multiple\<close> returned, in the order in which the
  tasks ran: the url and the outcome of its future.
\<close>

fun task_outcomes ::
  "('w, 'z) sys_scheme task \<Rightarrow> pystr list \<Rightarrow> ('w, 'z) sys_scheme
     \<Rightarrow> (pystr \<times> (exn + pystr option)) list" where
  "task_outcomes task [] s = []"
| "task_outcomes task (u # us) s =
     (case task u s of
        (Inr content, s1) \<Rightarrow> (u, Inr content) # task_outcomes task us s1
      | (Inl e, s1) \<Rightarrow>
          (u, Inl e) #
            task_outcomes task us (s1\<lparr>events := events s1 @ [Log (ExtractTaskFailed u e)]\<rparr>))"

section \<open>core/ai_analyzer.py\<close>

text \<open>
  The values \<open>json.loads\<close> returns. A float is kept as mantissa and binary exponent, or as
  one of the special values that \<open>json.loads\<close> accepts.
\<close>

datatype pyfloat = FloatVal int int | FloatInf bool | FloatNaN

datatype json =
    JNull
  | JBool bool
  | JInt int
  | JFloat pyfloat
  | JStr pystr
  | JArr "json list"
  | JObj "(pystr \<times> json) list"

text \<open>Truth value of a Python object, as \<open>if x:\<close> and \<open>not x\<close> test it.\<close>

fun py_truthy :: "json \<Rightarrow> bool" where
  "py_truthy JNull = False"
| "py_truthy (JBool b) = b"
| "py_truthy (JInt i) = (i \<noteq> 0)"
| "py_truthy (JFloat (FloatVal m e)) = (m \<noteq> 0)"
| "py_truthy (JFloat f) = True"
| "py_truthy (JStr s) = (s \<noteq> [])"
| "py_truthy (JArr xs) = (xs \<noteq> [])"
| "py_truthy (JObj d) = (d \<noteq> [])"

text \<open>\<open>len(x)\<close>\<close>

fun py_len :: "json \<Rightarrow> exn + nat" where
  "py_len (JStr s) = Inr (length s)"
| "py_len (JArr xs) = Inr (length xs)"
| "py_len (JObj d) = Inr (length d)"
| "py_len x = Inl TypeError"

text \<open>
  \<open>json.loads\<close> belongs to the standard library: it is a parameter, \<open>None\<close> standing for
  \<open>JSONDecodeError\<close>. The client of the AI provider is external: it receives the prompt and
  raises or returns the text of the response. A prompt is kept as the values that the source
  puts into its template.
\<close>

type_synonym json_loads = "pystr \<Rightarrow> json option"

datatype prompt =
    AnalysisPrompt pystr "search_record list" "(pystr \<times> pystr) list"
  | SynthesisPrompt pystr "(pystr list \<times> json list option) list"

type_synonym 'w chat_client = "prompt \<Rightarrow> 'w \<Rightarrow> (exn + pystr) \<times> 'w"

text \<open>\<open>_call_api\<close>: logs and re-raises.\<close>

definition call_api ::
  "'w chat_client \<Rightarrow> prompt \<Rightarrow> ('w, 'z) sys_scheme \<Rightarrow> (exn + pystr) \<times> ('w, 'z) sys_scheme" where
  "call_api client p s =
     (case client p (world s) of
        (Inr response, w) \<Rightarrow> (Inr response, s\<lparr>world := w\<rparr>)
      | (Inl e, w) \<Rightarrow> (Inl e, s\<lparr>world := w, events := events s @ [Log (ApiCallFailed e)]\<rparr>))"

text \<open>Removing the markdown code fence around the response.\<close>

definition strip_code_fence :: "pystr \<Rightarrow> pystr" where
  "strip_code_fence response =
     (let r1 = strip response;
          r2 = (if prefix (ascii ''```json'') r1 then drop 7 r1 else r1);
          r3 = (if prefix (ascii ''```'') r2 then drop 3 r2 else r2)
      in if suffix (ascii ''```'') r3 then take (length r3 - 3) r3 else r3)"

definition raw_response_analysis :: "pystr \<Rightarrow> (pystr \<times> json) list" where
  "raw_response_analysis response =
     [(ascii ''key_findings'', JArr [JStr response]),
      (ascii ''summary'', JStr response),
      (ascii ''topics'', JArr []),
      (ascii ''gaps'', JArr [])]"

text \<open>
  The prompt of the analysis: the query, the first ten results, and the first five
  extracted contents cut to 500 characters (none when \<open>extracted_contents\<close> is \<open>None\<close> or
  empty).
\<close>

definition analysis_prompt ::
  "pystr \<Rightarrow> search_record list \<Rightarrow> (pystr \<times> pystr) list option \<Rightarrow> prompt" where
  "analysis_prompt query results extracted =
     AnalysisPrompt query (take 10 results)
       (case extracted of
          None \<Rightarrow> []
        | Some d \<Rightarrow> map (\<lambda>(u, content). (u, take 500 content)) (take 5 d))"

definition analyze_search_results ::
  "'w chat_client \<Rightarrow> json_loads \<Rightarrow> pystr \<Rightarrow> search_record list \<Rightarrow> (pystr \<times> pystr) list option
     \<Rightarrow> ('w, 'z) sys_scheme \<Rightarrow> (exn + (pystr \<times> json) list) \<times> ('w, 'z) sys_scheme" where
  "analyze_search_results client loads query results extracted s =
     (let s0 = s\<lparr>events := events s @ [Log (AnalysisStarted query)]\<rparr>
      in case call_api client (analysis_prompt query results extracted) s0 of
           (Inl e, s1) \<Rightarrow>
             (if e = JSONDecodeError
              then (Inl UnboundLocalError, s1\<lparr>events := events s1 @ [Log AnalysisNotJson]\<rparr>)
              else (Inl e, s1))
         | (Inr response, s1) \<Rightarrow>
             (let response1 = strip_code_fence response
              in case loads (strip response1) of
                   None \<Rightarrow>
                     (Inr (raw_response_analysis response1),
                      s1\<lparr>events := events s1 @ [Log AnalysisNotJson]\<rparr>)
                 | Some (JObj d) \<Rightarrow>
                     (case py_len (dict_get d (ascii ''key_findings'') (JArr [])) of
                        Inl e \<Rightarrow> (Inl e, s1)
                      | Inr n \<Rightarrow> (Inr d, s1\<lparr>events := events s1 @ [Log (AnalysisDone n)]\<rparr>))
                 | Some v \<Rightarrow> (Inl AttributeError, s1)))"

text \<open>The items that \<open>conduct_research\<close> puts into \<open>all_rounds_data\<close>.\<close>

record round_data =
  rd_round_number :: int
  rd_queries :: "pystr list"
  rd_search_results :: "search_record list"
  rd_analysis :: "(pystr \<times> json) list"

text \<open>
  \<open>analysis.get('key_findings', [])[:5]\<close> and the iteration over it: a list gives its first
  five items, a string its first five characters, anything else raises (a dict raises
  \<open>TypeError\<close> up to Python 3.11 and \<open>KeyError\<close> from 3.12 on; the model says \<open>TypeError\<close>).
\<close>

fun first_five :: "json \<Rightarrow> exn + json list" where
  "first_five (JArr xs) = Inr (take 5 xs)"
| "first_five (JStr s) = Inr (map (\<lambda>c. JStr [c]) (take 5 s))"
| "first_five x = Inl TypeError"

fun rounds_summary :: "round_data list \<Rightarrow> exn + (pystr list \<times> json list option) list" where
  "rounds_summary [] = Inr []"
| "rounds_summary (r # rs) =
     (case (if rd_analysis r \<noteq> []
            then (case first_five (dict_get (rd_analysis r) (ascii ''key_findings'') (JArr [])) of
                    Inl e \<Rightarrow> Inl e
                  | Inr findings \<Rightarrow> Inr (Some findings))
            else Inr None) of
        Inl e \<Rightarrow> Inl e
      | Inr findings \<Rightarrow>
          (case rounds_summary rs of
             Inl e \<Rightarrow> Inl e
           | Inr rest \<Rightarrow> Inr ((rd_queries r, findings) # rest)))"

text \<open>The urls that pass \<open>if result.get('url')\<close>: the non-empty ones.\<close>

definition result_urls :: "search_record list \<Rightarrow> pystr list" where
  "result_urls results = filter (\<lambda>link. link \<noteq> []) (map url results)"

definition collect_sources :: "round_data list \<Rightarrow> pystr set" where
  "collect_sources all_rounds = set (concat (map (\<lambda>r. result_urls (rd_search_results r)) all_rounds))"

definition heading_cn :: pystr where
  "heading_cn = [35, 35, 32, 21442, 32771, 26469, 28304]"

definition heading_en :: pystr where
  "heading_en = ascii ''## References''"

text \<open>The appended section: the heading, then \<open>f"{i}. {url}\n"\<close> for \<open>enumerate(..., 1)\<close>.\<close>

definition references_section :: "pystr list \<Rightarrow> pystr" where
  "references_section links =
     [10, 10] @ heading_cn @ ascii '' (References)'' @ [10, 10] @
     concat (map (\<lambda>(i, link). str_nat i @ ascii ''. '' @ link @ [10])
                 (zip [1..<Suc (length links)] links))"

text \<open>
  The report of the \<open>except\<close> branch; \<open>analysis.get('summary', ...) + "\n\n"\<close> raises
  \<open>TypeError\<close> when the summary is not a string.
\<close>

fun round_summaries :: "nat \<Rightarrow> round_data list \<Rightarrow> exn + pystr" where
  "round_summaries i [] = Inr []"
| "round_summaries i (r # rs) =
     (case dict_get (rd_analysis r) (ascii ''summary'') (JStr [26080, 25688, 35201]) of
        JStr summary \<Rightarrow>
          (case round_summaries (Suc i) rs of
             Inl e \<Rightarrow> Inl e
           | Inr rest \<Rightarrow>
               Inr ([35, 35, 35, 32, 31532, 32] @ str_nat i @ [32, 36718, 10] @ summary
                    @ [10, 10] @ rest))
      | x \<Rightarrow> Inl TypeError)"

definition simple_report :: "pystr \<Rightarrow> round_data list \<Rightarrow> exn + pystr" where
  "simple_report subject all_rounds =
     (case round_summaries 1 all_rounds of
        Inl e \<Rightarrow> Inl e
      | Inr body \<Rightarrow>
          Inr (ascii ''# '' @ subject @ [10, 10, 35, 35, 32, 30740, 31350, 25688, 35201, 10, 10] @ body))"

definition synthesize_research ::
  "'w chat_client \<Rightarrow> pystr \<Rightarrow> round_data list \<Rightarrow> ('w, 'z) sys_scheme
     \<Rightarrow> (exn + pystr) \<times> ('w, 'z) sys_scheme" where
  "synthesize_research client subject all_rounds s =
     (let s0 = s\<lparr>events := events s @ [Log (SynthesisStarted subject)]\<rparr>
      in case rounds_summary all_rounds of
           Inl e \<Rightarrow> (Inl e, s0)
         | Inr summary \<Rightarrow>
             (case call_api client (SynthesisPrompt subject summary) s0 of
                (Inr report, s1) \<Rightarrow>
                  (let report1 =
                         (if \<not> sublist heading_cn report \<and> \<not> sublist heading_en report
                          then report @ references_section (sorted_list_of_set (collect_sources all_rounds))
                          else report)
                   in (Inr report1, s1\<lparr>events := events s1 @ [Log SynthesisDone]\<rparr>))
              | (Inl e, s1) \<Rightarrow>
                  (let s2 = s1\<lparr>events := events s1 @ [Log (SynthesisFailed e)]\<rparr>
                   in case simple_report subject all_rounds of
                        Inl e1 \<Rightarrow> (Inl e1, s2)
                      | Inr report \<Rightarrow> (Inr report, s2))))"

section \<open>core/research_orchestrator.py\<close>

record research_round =
  round_number :: int
  queries :: "pystr list"
  search_results :: "search_record list"
  extracted_contents :: "(pystr \<times> pystr) list"
  analysis :: "(pystr \<times> json) list"

record research_result =
  topic :: pystr
  final_report :: pystr
  rounds :: "research_round list"
  all_sources :: "pystr list"
  timestamp :: nat
  total_rounds :: int

text \<open>
  The collaborators of the orchestrator: the methods it calls on its search engine, its
  content extractor and its analyzer, and the clock. Each one is any function on a state
  \<open>'s\<close> of its own that raises or returns. The models above are instances.
\<close>

record 's services =
  search_engine_search :: "pystr \<Rightarrow> int \<Rightarrow> 's \<Rightarrow> (exn + search_record list) \<times> 's"
  content_extractor_extract_multiple :: "pystr list \<Rightarrow> 's \<Rightarrow> (exn + (pystr \<times> pystr) list) \<times> 's"
  ai_analyzer_analyze_search_results ::
    "pystr \<Rightarrow> search_record list \<Rightarrow> (pystr \<times> pystr) list \<Rightarrow> 's \<Rightarrow> (exn + (pystr \<times> json) list) \<times> 's"
  ai_analyzer_generate_follow_up_queries ::
    "pystr \<Rightarrow> (pystr \<times> json) list \<Rightarrow> int \<Rightarrow> 's \<Rightarrow> (exn + pystr list) \<times> 's"
  ai_analyzer_synthesize_research :: "pystr \<Rightarrow> round_data list \<Rightarrow> 's \<Rightarrow> (exn + pystr) \<times> 's"
  datetime_now :: "'s \<Rightarrow> nat"

text \<open>
  The messages passed to the progress callback, as the values the source formats into them:
  round \<open>round_num + 1\<close> and \<open>max_rounds\<close>, and the query.
\<close>

datatype progress_message =
    MsgSearching int int             \<comment> \<open>round start\<close>
  | MsgSearchingQuery int int pystr  \<comment> \<open>search of one query\<close>
  | MsgExtracting int int            \<comment> \<open>extraction start\<close>
  | MsgAnalyzing int int             \<comment> \<open>analysis start\<close>
  | MsgFinalReport                   \<comment> \<open>synthesis start\<close>

type_synonym 's progress_callback = "progress_message \<Rightarrow> int \<Rightarrow> int \<Rightarrow> 's \<Rightarrow> (exn + unit) \<times> 's"

text \<open>The records that \<open>conduct_research\<close> and \<open>_generate_queries\<close> write to the log.\<close>

datatype research_log =
    LogStart pystr int
  | LogRound int
  | LogNoMoreQueries
  | LogSearchDone nat
  | LogExtractDone nat
  | LogAnalysisDone
  | LogMaxRounds
  | LogNoGaps
  | LogGeneratingReport
  | LogResearchDone nat nat
  | LogGenerateQueriesFailed exn

fun is_LogRound :: "research_log \<Rightarrow> bool" where
  "is_LogRound (LogRound n) = True"
| "is_LogRound l = False"

record 's orchestrator =
  services_state :: 's
  logged :: "research_log list"

definition call :: "('s \<Rightarrow> (exn + 'a) \<times> 's) \<Rightarrow> 's orchestrator \<Rightarrow> (exn + 'a) \<times> 's orchestrator" where
  "call f st = (case f (services_state st) of (r, x) \<Rightarrow> (r, st\<lparr>services_state := x\<rparr>))"

definition put_log :: "research_log \<Rightarrow> 's orchestrator \<Rightarrow> 's orchestrator" where
  "put_log l st = st\<lparr>logged := logged st @ [l]\<rparr>"

text \<open>\<open>if progress_callback: progress_callback(message, current_round, total_rounds)\<close>\<close>

definition notify ::
  "'s progress_callback option \<Rightarrow> progress_message \<Rightarrow> int \<Rightarrow> int \<Rightarrow> 's orchestrator
     \<Rightarrow> (exn + unit) \<times> 's orchestrator" where
  "notify progress_callback message current_round all_rounds st =
     (case progress_callback of
        None \<Rightarrow> (Inr (), st)
      | Some f \<Rightarrow> call (f message current_round all_rounds) st)"

text \<open>\<open>_generate_queries\<close>\<close>

definition generate_queries ::
  "'s services \<Rightarrow> pystr \<Rightarrow> (pystr \<times> json) list \<Rightarrow> int \<Rightarrow> 's orchestrator
     \<Rightarrow> pystr list \<times> 's orchestrator" where
  "generate_queries svc subject previous_analysis round_num st =
     (case call (ai_analyzer_generate_follow_up_queries svc subject previous_analysis round_num) st of
        (Inr qs, st1) \<Rightarrow> (qs, st1)
      | (Inl e, st1) \<Rightarrow> ([], put_log (LogGenerateQueriesFailed e) st1))"

text \<open>
  The queries of the round: \<open>[current_query]\<close> in the first one, the follow-up queries for
  \<open>rounds[-1].analysis\<close> afterwards.
\<close>

definition select_queries ::
  "'s services \<Rightarrow> pystr \<Rightarrow> research_round list \<Rightarrow> int \<Rightarrow> 's orchestrator
     \<Rightarrow> (exn + pystr list) \<times> 's orchestrator" where
  "select_queries svc subject done_rounds round_num st =
     (if round_num = 0 then (Inr [subject], st)
      else if done_rounds = [] then (Inl IndexError, st)
      else (case generate_queries svc subject (analysis (last done_rounds)) round_num st of
              (qs, st1) \<Rightarrow> (Inr qs, st1)))"

text \<open>The loop \<open>for query in queries\<close>: the results so far and the set of sources.\<close>

fun search_queries ::
  "'s services \<Rightarrow> 's progress_callback option \<Rightarrow> int \<Rightarrow> int \<Rightarrow> int \<Rightarrow> pystr list
     \<Rightarrow> search_record list \<Rightarrow> pystr set \<Rightarrow> 's orchestrator
     \<Rightarrow> (exn + search_record list \<times> pystr set) \<times> 's orchestrator" where
  "search_queries svc progress_callback results_per_search max_rounds round_num []
       all_search_results sources st =
     (Inr (all_search_results, sources), st)"
| "search_queries svc progress_callback results_per_search max_rounds round_num (query # qs)
       all_search_results sources st =
     (case notify progress_callback (MsgSearchingQuery (round_num + 1) max_rounds query)
             (round_num + 1) max_rounds st of
        (Inl e, st1) \<Rightarrow> (Inl e, st1)
      | (Inr _, st1) \<Rightarrow>
          (case call (search_engine_search svc query results_per_search) st1 of
             (Inl e, st2) \<Rightarrow> (Inl e, st2)
           | (Inr results, st2) \<Rightarrow>
               search_queries svc progress_callback results_per_search max_rounds round_num qs
                 (all_search_results @ results) (sources \<union> set (result_urls results)) st2))"

text \<open>
  One round once its queries \<open>query # qs\<close> are known not to be empty: search, extraction
  of the first ten urls, analysis with \<open>queries[0]\<close>.
\<close>

definition run_round ::
  "'s services \<Rightarrow> 's progress_callback option \<Rightarrow> int \<Rightarrow> int \<Rightarrow> int \<Rightarrow> pystr \<Rightarrow> pystr list
     \<Rightarrow> pystr set \<Rightarrow> 's orchestrator
     \<Rightarrow> (exn + research_round \<times> pystr set) \<times> 's orchestrator" where
  "run_round svc progress_callback results_per_search max_rounds round_num query qs sources st =
     (case search_queries svc progress_callback results_per_search max_rounds round_num
             (query # qs) [] sources st of
        (Inl e, st1) \<Rightarrow> (Inl e, st1)
      | (Inr (all_search_results, sources1), st1) \<Rightarrow>
          (case notify progress_callback (MsgExtracting (round_num + 1) max_rounds)
                  (round_num + 1) max_rounds
                  (put_log (LogSearchDone (length all_search_results)) st1) of
             (Inl e, st2) \<Rightarrow> (Inl e, st2)
           | (Inr _, st2) \<Rightarrow>
               (case call (content_extractor_extract_multiple svc
                             (map url (take 10 all_search_results))) st2 of
                  (Inl e, st3) \<Rightarrow> (Inl e, st3)
                | (Inr extracted, st3) \<Rightarrow>
                    (case notify progress_callback (MsgAnalyzing (round_num + 1) max_rounds)
                            (round_num + 1) max_rounds
                            (put_log (LogExtractDone (length extracted)) st3) of
                       (Inl e, st4) \<Rightarrow> (Inl e, st4)
                     | (Inr _, st4) \<Rightarrow>
                         (case call (ai_analyzer_analyze_search_results svc query
                                       all_search_results extracted) st4 of
                            (Inl e, st5) \<Rightarrow> (Inl e, st5)
                          | (Inr an, st5) \<Rightarrow>
                              (Inr (\<lparr> round_number = round_num + 1,
                                      queries = query # qs,
                                      search_results = all_search_results,
                                      extracted_contents = extracted,
                                      analysis = an \<rparr>,
                                    sources1),
                               put_log LogAnalysisDone st5))))))"

text \<open>\<open>not analysis.get('gaps', [])\<close>\<close>

definition no_gaps :: "(pystr \<times> json) list \<Rightarrow> bool" where
  "no_gaps an = (\<not> py_truthy (dict_get an (ascii ''gaps'') (JArr [])))"

text \<open>\<open>range(max_rounds)\<close>\<close>

definition py_range :: "int \<Rightarrow> int list" where
  "py_range n = [0..n - 1]"

text \<open>
  The loop \<open>for round_num in range(max_rounds)\<close>, over the indices still to come; it ends
  with the rounds and the sources, or with an exception.
\<close>

fun research_loop ::
  "'s services \<Rightarrow> 's progress_callback option \<Rightarrow> pystr \<Rightarrow> int \<Rightarrow> int \<Rightarrow> int list
     \<Rightarrow> research_round list \<Rightarrow> pystr set \<Rightarrow> 's orchestrator
     \<Rightarrow> (exn + research_round list \<times> pystr set) \<times> 's orchestrator" where
  "research_loop svc progress_callback subject results_per_search max_rounds []
       done_rounds sources st =
     (Inr (done_rounds, sources), st)"
| "research_loop svc progress_callback subject results_per_search max_rounds (round_num # rest)
       done_rounds sources st =
     (case notify progress_callback (MsgSearching (round_num + 1) max_rounds)
             (round_num + 1) max_rounds (put_log (LogRound (round_num + 1)) st) of
        (Inl e, st1) \<Rightarrow> (Inl e, st1)
      | (Inr _, st1) \<Rightarrow>
          (case select_queries svc subject done_rounds round_num st1 of
             (Inl e, st2) \<Rightarrow> (Inl e, st2)
           | (Inr [], st2) \<Rightarrow> (Inr (done_rounds, sources), put_log LogNoMoreQueries st2)
           | (Inr (query # qs), st2) \<Rightarrow>
               (case run_round svc progress_callback results_per_search max_rounds round_num
                       query qs sources st2 of
                  (Inl e, st3) \<Rightarrow> (Inl e, st3)
                | (Inr (round_data, sources1), st3) \<Rightarrow>
                    (if round_num \<ge> max_rounds - 1
                     then (Inr (done_rounds @ [round_data], sources1), put_log LogMaxRounds st3)
                     else if no_gaps (analysis round_data)
                     then (Inr (done_rounds @ [round_data], sources1), put_log LogNoGaps st3)
                     else research_loop svc progress_callback subject results_per_search
                            max_rounds rest (done_rounds @ [round_data]) sources1 st3))))"

text \<open>After the loop: the final report and the result.\<close>

definition round_to_data :: "research_round \<Rightarrow> round_data" where
  "round_to_data r =
     \<lparr> rd_round_number = round_number r,
       rd_queries = queries r,
       rd_search_results = search_results r,
       rd_analysis = analysis r \<rparr>"

definition finish ::
  "'s services \<Rightarrow> 's progress_callback option \<Rightarrow> pystr \<Rightarrow> int \<Rightarrow> research_round list
     \<Rightarrow> pystr set \<Rightarrow> 's orchestrator \<Rightarrow> (exn + research_result) \<times> 's orchestrator" where
  "finish svc progress_callback subject max_rounds done_rounds sources st =
     (case notify progress_callback MsgFinalReport max_rounds max_rounds st of
        (Inl e, st1) \<Rightarrow> (Inl e, st1)
      | (Inr _, st1) \<Rightarrow>
          (case call (ai_analyzer_synthesize_research svc subject (map round_to_data done_rounds))
                  (put_log LogGeneratingReport st1) of
             (Inl e, st2) \<Rightarrow> (Inl e, st2)
           | (Inr report, st2) \<Rightarrow>
               (Inr \<lparr> topic = subject,
                      final_report = report,
                      rounds = done_rounds,
                      all_sources = sorted_list_of_set sources,
                      timestamp = datetime_now svc (services_state st2),
                      total_rounds = int (length done_rounds) \<rparr>,
                put_log (LogResearchDone (length done_rounds) (card sources)) st2)))"

text \<open>\<open>if max_rounds is None: max_rounds = settings.MAX_RESEARCH_ROUNDS\<close>\<close>

definition max_rounds_or_default :: "settings \<Rightarrow> int option \<Rightarrow> int" where
  "max_rounds_or_default cfg max_rounds =
     (case max_rounds of None \<Rightarrow> MAX_RESEARCH_ROUNDS cfg | Some n \<Rightarrow> n)"

definition conduct_research ::
  "settings \<Rightarrow> 's services \<Rightarrow> pystr \<Rightarrow> int option \<Rightarrow> int option \<Rightarrow> 's progress_callback option
     \<Rightarrow> 's orchestrator \<Rightarrow> (exn + research_result) \<times> 's orchestrator" where
  "conduct_research cfg svc subject max_rounds results_per_search progress_callback st =
     (let max_rounds1 = max_rounds_or_default cfg max_rounds;
          results_per_search1 = max_results_or_default cfg results_per_search
      in case research_loop svc progress_callback subject results_per_search1 max_rounds1
                (py_range max_rounds1) [] {} (put_log (LogStart subject max_rounds1) st) of
           (Inl e, st1) \<Rightarrow> (Inl e, st1)
         | (Inr (done_rounds, sources), st1) \<Rightarrow>
             finish svc progress_callback subject max_rounds1 done_rounds sources st1)"

text \<open>
  A server that answers every request with the same page and counts the requests, and a
  parser that finds the text \<open>hi\<close> in it.
\<close>

definition page_server :: "nat http_get" where
  "page_server u n = (Inr (ascii ''<body> hi </body>''), Suc n)"

definition body_text :: main_text where
  "body_text html = Inr (Some (ascii ''hi''))"

definition new_fetcher :: "nat fetcher" where
  "new_fetcher = \<lparr>world = 0, events = [], cache = Map.empty\<rparr>"

text \<open>
  The pairs of url and text among the outcomes of the tasks for which the source stores
  \<open>results[url] = content\<close>: the task returned a text and \<open>if content\<close> holds.
\<close>

fun successes :: "(pystr \<times> (exn + pystr option)) list \<Rightarrow> (pystr \<times> pystr) list" where
  "successes [] = []"
| "successes ((u, Inr (Some c)) # outs) =
     (if c \<noteq> [] then (u, c) # successes outs else successes outs)"
| "successes (out # outs) = successes outs"

text \<open>A server whose pages have an empty body, and the parser on such a page.\<close>

definition blank_server :: "nat http_get" where
  "blank_server u n = (Inr (ascii ''<body></body>''), Suc n)"

definition blank_text :: main_text where
  "blank_text html = Inr (Some [])"

text \<open>A task that raises for one url, finds nothing for another and a text for the others.\<close>

definition mixed_task :: "unit sys task" where
  "mixed_task u s =
     (if u = ascii ''b.com'' then (Inl (OtherException (ascii ''boom'')), s)
      else if u = ascii ''d.com'' then (Inr None, s)
      else (Inr (Some (ascii ''text of '' @ u)), s))"

text \<open>The four fields of an analysis result are among the keys of the dict.\<close>

definition has_four_fields :: "(pystr \<times> json) list \<Rightarrow> bool" where
  "has_four_fields d =
     (\<forall>k \<in> set [ascii ''key_findings'', ascii ''summary'', ascii ''topics'', ascii ''gaps''].
        k \<in> fst ` set d)"

text \<open>\<open>len(analysis.get('key_findings', []))\<close> is defined.\<close>

definition findings_sized :: "(pystr \<times> json) list \<Rightarrow> bool" where
  "findings_sized d = (\<exists>n. py_len (dict_get d (ascii ''key_findings'') (JArr [])) = Inr n)"

text \<open>
  A client whose response is always the same text, and \<open>json.loads\<close> as far as the
  examples below need it: \<open>json.loads('{}')\<close> is the empty dict, and the other texts used
  below are not JSON.
\<close>

definition fixed_client :: "pystr \<Rightarrow> unit chat_client" where
  "fixed_client response p w = (Inr response, w)"

definition loads_empty_object :: json_loads where
  "loads_empty_object s = (if s = ascii ''{}'' then Some (JObj []) else None)"

text \<open>
  The data of one round whose three search results have two distinct urls, not in order.
\<close>

definition one_round_data :: "round_data list" where
  "one_round_data =
     [\<lparr> rd_round_number = 1,
        rd_queries = [ascii ''topic''],
        rd_search_results =
          [\<lparr>title = ascii ''B'', url = ascii ''b.com'', snippet = []\<rparr>,
           \<lparr>title = ascii ''A'', url = ascii ''a.com'', snippet = []\<rparr>,
           \<lparr>title = ascii ''B again'', url = ascii ''b.com'', snippet = []\<rparr>],
        rd_analysis = [] \<rparr>]"

text \<open>
  The union of the \<open>url\<close> fields of the search results of all rounds of a result, as
  the specification words it.
\<close>

definition all_result_urls :: "research_result \<Rightarrow> pystr set" where
  "all_result_urls res = set (concat (map (\<lambda>rd. map url (search_results rd)) (rounds res)))"

text \<open>
  Collaborators for the examples, over a state that counts the analyses. Every search
  finds one result with a url and one without; the \<open>k\<close>-th analysis reports the gaps
  \<open>gaps_of k\<close>; there is always one follow-up query.
\<close>

definition demo_services :: "(nat \<Rightarrow> json list) \<Rightarrow> nat services" where
  "demo_services gaps_of =
     \<lparr> search_engine_search = (\<lambda>query n s.
         (Inr [\<lparr>title = query, url = ascii ''a.com'', snippet = []\<rparr>,
               \<lparr>title = query, url = [], snippet = []\<rparr>], s)),
       content_extractor_extract_multiple = (\<lambda>us s. (Inr [(ascii ''a.com'', ascii ''text'')], s)),
       ai_analyzer_analyze_search_results = (\<lambda>query results extracted s.
         (Inr [(ascii ''gaps'', JArr (gaps_of s))], Suc s)),
       ai_analyzer_generate_follow_up_queries = (\<lambda>subject an n s. (Inr [ascii ''more''], s)),
       ai_analyzer_synthesize_research = (\<lambda>subject all_rounds s. (Inr (ascii ''report''), s)),
       datetime_now = (\<lambda>s. 0) \<rparr>"

definition one_gap_then_none :: "nat \<Rightarrow> json list" where
  "one_gap_then_none k = (if k = 0 then [JStr (ascii ''more'')] else [])"

definition never_gaps :: "nat \<Rightarrow> json list" where
  "never_gaps k = []"

definition new_orchestrator :: "nat orchestrator" where
  "new_orchestrator = \<lparr>services_state = 0, logged = []\<rparr>"

text \<open>The result of the run with one round, spelled out.\<close>

definition demo_result :: research_result where
  "demo_result =
     \<lparr> topic = ascii ''topic'',
       final_report = ascii ''report'',
       rounds =
         [\<lparr> round_number = 1,
             queries = [ascii ''topic''],
             search_results =
               [\<lparr>title = ascii ''topic'', url = ascii ''a.com'', snippet = []\<rparr>,
                \<lparr>title = ascii ''topic'', url = [], snippet = []\<rparr>],
             extracted_contents = [(ascii ''a.com'', ascii ''text'')],
             analysis = [(ascii ''gaps'', JArr [])] \<rparr>],
       all_sources = [ascii ''a.com''],
       timestamp = 0,
       total_rounds = 1 \<rparr>"

text \<open>A collaborator call that returns a value in every state.\<close>

definition never_raises :: "('s \<Rightarrow> (exn + 'a) \<times> 's) \<Rightarrow> bool" where
  "never_raises f = (\<forall>s. \<exists>v s'. f s = (Inr v, s'))"

text \<open>
  Search, extraction, analysis, synthesis and the progress callback never raise; nothing
  is said of \<open>generate_follow_up_queries\<close>.
\<close>

definition others_never_raise :: "'s services \<Rightarrow> 's progress_callback option \<Rightarrow> bool" where
  "others_never_raise svc progress_callback =
     ((\<forall>query n. never_raises (search_engine_search svc query n)) \<and>
      (\<forall>us. never_raises (content_extractor_extract_multiple svc us)) \<and>
      (\<forall>query results extracted.
         never_raises (ai_analyzer_analyze_search_results svc query results extracted)) \<and>
      (\<forall>subject all_rounds. never_raises (ai_analyzer_synthesize_research svc subject all_rounds)) \<and>
      (case progress_callback of
         None \<Rightarrow> True
       | Some f \<Rightarrow> (\<forall>message current_round all_rounds.
                     never_raises (f message current_round all_rounds))))"

text \<open>The collaborators of the examples with follow-up queries that always raise.\<close>

definition failing_follow_up :: "nat services \<Rightarrow> nat services" where
  "failing_follow_up svc =
     svc\<lparr>ai_analyzer_generate_follow_up_queries :=
           (\<lambda>subject an n s. (Inl (OtherException (ascii ''api down'')), s))\<rparr>"

text \<open>A progress callback that returns and leaves the state as it is.\<close>

definition silent_callback :: "nat progress_callback" where
  "silent_callback message current_round all_rounds s = (Inr (), s)"

text \<open>
  A way to see in the state that the callback has raised: \<open>mark\<close> reads from the state of
  the collaborators the exception that the callback raised, if it did. The callback sets
  the mark when it raises, and only then; no collaborator sets it.
\<close>

definition callback_marks :: "('s \<Rightarrow> exn option) \<Rightarrow> 's progress_callback \<Rightarrow> bool" where
  "callback_marks mark f =
     (\<forall>message current_round all_rounds s r s'.
        mark s = None \<and> f message current_round all_rounds s = (r, s') \<longrightarrow>
        mark s' = (case r of Inl e \<Rightarrow> Some e | Inr u \<Rightarrow> None))"

definition keeps_unmarked :: "('s \<Rightarrow> exn option) \<Rightarrow> ('s \<Rightarrow> (exn + 'a) \<times> 's) \<Rightarrow> bool" where
  "keeps_unmarked mark f = (\<forall>s r s'. mark s = None \<and> f s = (r, s') \<longrightarrow> mark s' = None)"

definition services_keep_unmarked :: "('s \<Rightarrow> exn option) \<Rightarrow> 's services \<Rightarrow> bool" where
  "services_keep_unmarked mark svc =
     ((\<forall>query n. keeps_unmarked mark (search_engine_search svc query n)) \<and>
      (\<forall>us. keeps_unmarked mark (content_extractor_extract_multiple svc us)) \<and>
      (\<forall>query results extracted.
         keeps_unmarked mark (ai_analyzer_analyze_search_results svc query results extracted)) \<and>
      (\<forall>subject an n.
         keeps_unmarked mark (ai_analyzer_generate_follow_up_queries svc subject an n)) \<and>
      (\<forall>subject all_rounds.
         keeps_unmarked mark (ai_analyzer_synthesize_research svc subject all_rounds)))"

text \<open>
  Collaborators that leave their state alone: one result for every search, its page
  extracted, an analysis without gaps. The state is the exception that the callback has
  raised, if any.
\<close>

definition plain_services :: "exn option services" where
  "plain_services =
     \<lparr> search_engine_search = (\<lambda>query n s.
         (Inr [\<lparr>title = query, url = ascii ''a.com'', snippet = []\<rparr>], s)),
       content_extractor_extract_multiple = (\<lambda>us s. (Inr [(ascii ''a.com'', ascii ''text'')], s)),
       ai_analyzer_analyze_search_results = (\<lambda>query results extracted s.
         (Inr [(ascii ''gaps'', JArr [])], s)),
       ai_analyzer_generate_follow_up_queries = (\<lambda>subject an n s. (Inr [], s)),
       ai_analyzer_synthesize_research = (\<lambda>subject all_rounds s. (Inr (ascii ''report''), s)),
       datetime_now = (\<lambda>s. 0) \<rparr>"

text \<open>A callback that raises when the extraction starts, and one that always raises.\<close>

definition fails_at_extraction :: "exn option progress_callback" where
  "fails_at_extraction message current_round all_rounds s =
     (case message of
        MsgExtracting n m \<Rightarrow>
          (Inl (OtherException (ascii ''ui closed'')), Some (OtherException (ascii ''ui closed'')))
      | _ \<Rightarrow> (Inr (), s))"

definition broken_callback :: "nat progress_callback" where
  "broken_callback message current_round all_rounds s =
     (Inl (OtherException (ascii ''ui closed'')), s)"


text \<open>
  The five checkpoints at which \<open>conduct_research\<close> calls the progress callback, the
  checkpoint of a message, and the callback that raises \<open>e\<close> at one checkpoint and returns
  at the others, leaving the state as it is.
\<close>

datatype checkpoint = RoundStart | QuerySearch | ExtractionStart | AnalysisStart | SynthesisStart

fun checkpoint_of :: "progress_message \<Rightarrow> checkpoint" where
  "checkpoint_of (MsgSearching n m) = RoundStart"
| "checkpoint_of (MsgSearchingQuery n m query) = QuerySearch"
| "checkpoint_of (MsgExtracting n m) = ExtractionStart"
| "checkpoint_of (MsgAnalyzing n m) = AnalysisStart"
| "checkpoint_of MsgFinalReport = SynthesisStart"

definition raising_at :: "checkpoint \<Rightarrow> exn \<Rightarrow> 's progress_callback" where
  "raising_at k e message current_round all_rounds s =
     (if checkpoint_of message = k then (Inl e, s) else (Inr (), s))"

section \<open>Verified properties\<close>

subsection \<open>search\<close>






subsection \<open>extract_content\<close>

lemma extract_retry_cache:
  "extract_retry http_get main_text u k s = (r, s') \<Longrightarrow>
     (\<forall>t. r = Inr (Some t) \<longrightarrow> cache s' u = Some t) \<and>
     (\<forall>v. v \<noteq> u \<longrightarrow> cache s' v = cache s v) \<and>
     (\<exists>e. r = Inr e)"
proof (induction http_get main_text u k s arbitrary: r s' rule: extract_retry.induct)
  case (1 http_get main_text u k s)
  show ?case
  proof (cases "k < MAX_RETRIES")
    case False
    with "1.prems" show ?thesis by (subst (asm) extract_retry.simps) auto
  next
    case True
    obtain o1 w where call: "http_get u (world s) = (o1, w)" by (cases "http_get u (world s)")
    show ?thesis
    proof (cases o1)
      case (Inr html)
      show ?thesis
      proof (cases "main_text html")
        case parse_failed: (Inl e)
        have "extract_retry http_get main_text u k s =
                (Inr None, s\<lparr>world := w, events := events s @ [Call_session_get u,
                              Log (ExtractParseFailed u e)]\<rparr>)"
          using Inr True call parse_failed by (subst extract_retry.simps) (simp add: Let_def)
        with "1.prems" show ?thesis by auto
      next
        case parsed: (Inr found)
        show ?thesis
        proof (cases found)
          case None
          have "extract_retry http_get main_text u k s =
                  (Inr None, s\<lparr>world := w, events := events s @ [Call_session_get u,
                                Log (ExtractNoMainContent u)]\<rparr>)"
            using Inr True call parsed None by (subst extract_retry.simps) (simp add: Let_def)
          with "1.prems" show ?thesis by auto
        next
          case (Some body)
          have "extract_retry http_get main_text u k s =
                  (Inr (Some (clean_content body)),
                   s\<lparr>world := w, cache := (cache s)(u \<mapsto> clean_content body),
                     events := events s @ [Call_session_get u,
                       Log (ExtractSucceeded u (length (clean_content body)))]\<rparr>)"
            using Inr True call parsed Some by (subst extract_retry.simps) (simp add: Let_def)
          with "1.prems" show ?thesis by auto
        qed
      qed
    next
      case (Inl e)
      show ?thesis
      proof (cases "e = RequestException \<and> k + 1 < MAX_RETRIES")
        case False
        with True call Inl "1.prems" show ?thesis
          by (subst (asm) extract_retry.simps) (auto simp: Let_def split: if_splits)
      next
        case again: True
        have step: "extract_retry http_get main_text u k s =
            extract_retry http_get main_text u (k + 1)
              (s\<lparr>world := w,
                 events := events s @ [Call_session_get u,
                   Log (ExtractRequestFailed (k + 1) u e),
                   Call_sleep (RETRY_DELAY * 2 ^ (k + 1 - 1))]\<rparr>)"
          using True call Inl again
          by (subst extract_retry.simps) (simp add: Let_def)
        from "1.IH"[OF True call[symmetric] Inl refl _ refl refl _ refl, of r s'] again
          "1.prems" step
        show ?thesis by (simp add: Let_def)
      qed
    qed
  qed
qed

lemma extract_content_cache:
  assumes "extract_content http_get main_text v s = (r, s')"
  shows "(\<forall>t. r = Inr (Some t) \<longrightarrow> cache s' v = Some t) \<and>
         (\<forall>u t. cache s u = Some t \<longrightarrow> cache s' u = Some t)"
proof (cases "v \<in> dom (cache s)")
  case True
  with assms show ?thesis by (auto simp: extract_content_def)
next
  case False
  with assms have run: "extract_retry http_get main_text v 0
      (s\<lparr>events := events s @ [Log (ExtractStarted v)]\<rparr>) = (r, s')"
    by (simp add: extract_content_def)
  from extract_retry_cache[OF run]
  have hit: "\<forall>t. r = Inr (Some t) \<longrightarrow> cache s' v = Some t"
    and others: "\<forall>u. u \<noteq> v \<longrightarrow> cache s' u = cache s u"
    by simp_all
  have "cache s' u = Some t" if "cache s u = Some t" for u t
  proof -
    from that False have "u \<noteq> v" by (auto simp: dom_def)
    with others that show ?thesis by simp
  qed
  with hit show ?thesis by blast
qed

lemma extract_calls_cache:
  "cache s u = Some t \<Longrightarrow> cache (extract_calls http_get main_text us s) u = Some t"
proof (induction us arbitrary: s)
  case Nil
  then show ?case by simp
next
  case (Cons v us)
  obtain r s' where step: "extract_content http_get main_text v s = (r, s')"
    by (cases "extract_content http_get main_text v s")
  from extract_content_cache[OF step] Cons.prems have "cache s' u = Some t" by blast
  from Cons.IH[OF this] step show ?case by simp
qed


text \<open>
  C8. Once \<open>extract_content\<close> has returned a text for a url, every later call for that url
  on the same extractor, after any sequence of other \<open>extract_content\<close> calls, returns the
  same text from the cache: the world is unchanged, no request is issued, and the only new
  event is the debug log record of the cache hit.
\<close>

theorem extract_content_cached:
  assumes "extract_content http_get main_text u s = (Inr (Some t), s1)"
    and "s2 = extract_calls http_get main_text us s1"
  shows "extract_content http_get main_text u s2 =
           (Inr (Some t), s2\<lparr>events := events s2 @ [Log (ExtractCacheHit u)]\<rparr>)"
proof -
  from extract_content_cache[OF assms(1)] have "cache s1 u = Some t" by simp
  then have "cache s2 u = Some t" unfolding assms(2) by (rule extract_calls_cache)
  then show ?thesis by (auto simp: extract_content_def)
qed

theorem extract_content_cached_witness:
  "fst (extract_content page_server body_text (ascii ''a.com'') new_fetcher)
     = Inr (Some (ascii ''hi'')) \<and>
   extract_content page_server body_text (ascii ''a.com'')
     (extract_calls page_server body_text [ascii ''b.com'']
        (snd (extract_content page_server body_text (ascii ''a.com'') new_fetcher)))
     = (Inr (Some (ascii ''hi'')),
        \<lparr>world = 2,
         events = [Log (ExtractStarted (ascii ''a.com'')), Call_session_get (ascii ''a.com''),
                   Log (ExtractSucceeded (ascii ''a.com'') 2),
                   Log (ExtractStarted (ascii ''b.com'')), Call_session_get (ascii ''b.com''),
                   Log (ExtractSucceeded (ascii ''b.com'') 2),
                   Log (ExtractCacheHit (ascii ''a.com''))],
         cache = [ascii ''a.com'' \<mapsto> ascii ''hi'', ascii ''b.com'' \<mapsto> ascii ''hi'']\<rparr>)"
proof -
  have cleaned: "clean_content (ascii ''hi'') = ascii ''hi''"
    by (simp add: clean_content_def strip_def py_isspace_def ascii_def MAX_CONTENT_LENGTH_def
          Let_def)
  have first: "extract_content page_server body_text (ascii ''a.com'') new_fetcher =
       (Inr (Some (ascii ''hi'')),
        \<lparr>world = 1,
         events = [Log (ExtractStarted (ascii ''a.com'')), Call_session_get (ascii ''a.com''),
                   Log (ExtractSucceeded (ascii ''a.com'') 2)],
         cache = [ascii ''a.com'' \<mapsto> ascii ''hi'']\<rparr>)"
    apply (simp add: extract_content_def new_fetcher_def)
    apply (subst extract_retry.simps)
    apply (simp add: MAX_RETRIES_def page_server_def body_text_def Let_def cleaned)
    apply (simp add: ascii_def)
    done
  have other: "extract_calls page_server body_text [ascii ''b.com'']
        \<lparr>world = 1,
         events = [Log (ExtractStarted (ascii ''a.com'')), Call_session_get (ascii ''a.com''),
                   Log (ExtractSucceeded (ascii ''a.com'') 2)],
         cache = [ascii ''a.com'' \<mapsto> ascii ''hi'']\<rparr> =
        \<lparr>world = 2,
         events = [Log (ExtractStarted (ascii ''a.com'')), Call_session_get (ascii ''a.com''),
                   Log (ExtractSucceeded (ascii ''a.com'') 2),
                   Log (ExtractStarted (ascii ''b.com'')), Call_session_get (ascii ''b.com''),
                   Log (ExtractSucceeded (ascii ''b.com'') 2)],
         cache = [ascii ''a.com'' \<mapsto> ascii ''hi'', ascii ''b.com'' \<mapsto> ascii ''hi'']\<rparr>"
    apply (simp add: extract_content_def)
    apply (subst extract_retry.simps)
    apply (simp add: MAX_RETRIES_def page_server_def body_text_def Let_def cleaned)
    apply (simp add: ascii_def)
    done
  show ?thesis
    using extract_content_cached[OF first refl, of "[ascii ''b.com'']"] first other
    by simp
qed

subsection \<open>extract_multiple\<close>

lemma task_outcomes_urls: "map fst (task_outcomes task us s) = us"
  by (induction us arbitrary: s) (auto split: prod.splits sum.splits)

lemma collect_futures_map:
  "map_of (fst (collect_futures task us results s)) =
     map_of results ++ map_of (rev (successes (task_outcomes task us s)))"
proof (induction us arbitrary: results s)
  case Nil
  then show ?case by simp
next
  case (Cons u us)
  obtain r s1 where step: "task u s = (r, s1)" by (cases "task u s")
  show ?case
  proof (cases r)
    case (Inl e)
    with step Cons.IH show ?thesis by simp
  next
    case (Inr content)
    show ?thesis
    proof (cases content)
      case None
      with Inr step Cons.IH show ?thesis by simp
    next
      case (Some c)
      show ?thesis
      proof (cases "c = []")
        case True
        with Some Inr step Cons.IH show ?thesis by simp
      next
        case False
        with Some Inr step Cons.IH[of "AList.update u c results" s1] show ?thesis
          by (simp add: update_conv' map_add_def fun_eq_iff split: option.splits)
      qed
    qed
  qed
qed

lemma collect_futures_distinct:
  "distinct (map fst results) \<Longrightarrow> distinct (map fst (fst (collect_futures task us results s)))"
proof (induction us arbitrary: results s)
  case Nil
  then show ?case by simp
next
  case (Cons u us)
  obtain r s1 where step: "task u s = (r, s1)" by (cases "task u s")
  show ?case
    using step Cons.IH Cons.prems
    by (cases r) (auto simp: distinct_update split: option.splits)
qed

lemma successes_iff:
  "(u, c) \<in> set (successes outs) \<longleftrightarrow> c \<noteq> [] \<and> (u, Inr (Some c)) \<in> set outs"
  by (induction outs rule: successes.induct) auto

text \<open>
  C9 (as amended). With a positive number of workers, \<open>extract_multiple\<close> does not raise,
  whatever the tasks do (return a text, return \<open>None\<close>, raise): the task of every url runs,
  and the returned mapping has exactly the urls for which a task returned a text that is
  not empty, each with the text of the last such task. A url whose extraction
  succeeded with the empty text is left out by \<open>if content\<close>.
\<close>

theorem extract_multiple_collects_nonempty:
  assumes "0 < max_workers_or_default cfg max_workers"
  shows "\<exists>results s'. extract_multiple_with task cfg us max_workers s = (Inr results, s') \<and>
           map fst (task_outcomes task us s) = us \<and>
           map_of results = map_of (rev (successes (task_outcomes task us s))) \<and>
           distinct (map fst results) \<and>
           (\<forall>u. u \<in> fst ` set results \<longleftrightarrow>
                  (\<exists>c. c \<noteq> [] \<and> (u, Inr (Some c)) \<in> set (task_outcomes task us s)))"
proof -
  obtain results s' where run: "collect_futures task us [] s = (results, s')"
    by (cases "collect_futures task us [] s")
  have res: "extract_multiple_with task cfg us max_workers s = (Inr results, s')"
    using assms run by (simp add: extract_multiple_with_def Let_def)
  have m: "map_of results = map_of (rev (successes (task_outcomes task us s)))"
    using collect_futures_map[of task us "[]" s] run by simp
  have d: "distinct (map fst results)"
    using collect_futures_distinct[of "[]" task us s] run by simp
  have "fst ` set results = dom (map_of results)"
    by (simp add: dom_map_of_conv_image_fst)
  also have "\<dots> = fst ` set (successes (task_outcomes task us s))"
    by (simp add: m dom_map_of_conv_image_fst)
  finally have keys: "fst ` set results = fst ` set (successes (task_outcomes task us s))" .
  have "u \<in> fst ` set results \<longleftrightarrow>
          (\<exists>c. c \<noteq> [] \<and> (u, Inr (Some c)) \<in> set (task_outcomes task us s))" for u
  proof -
    have "u \<in> fst ` set results \<longleftrightarrow> (\<exists>c. (u, c) \<in> set (successes (task_outcomes task us s)))"
      unfolding keys by force
    then show ?thesis by (simp add: successes_iff)
  qed
  with res m d task_outcomes_urls[of task us s] show ?thesis by blast
qed

theorem extract_multiple_collects_nonempty_witness:
  "0 < max_workers_or_default default_settings None \<and>
   fst (extract_multiple_with mixed_task default_settings
          [ascii ''a.com'', ascii ''b.com'', ascii ''c.com'', ascii ''d.com'', ascii ''e.com'']
          None \<lparr>world = (), events = []\<rparr>)
     = Inr [(ascii ''a.com'', ascii ''text of a.com''),
            (ascii ''c.com'', ascii ''text of c.com''),
            (ascii ''e.com'', ascii ''text of e.com'')]"
proof -
  have pos: "0 < max_workers_or_default default_settings None"
    by (simp add: max_workers_or_default_def default_settings_def)
  from extract_multiple_collects_nonempty[OF pos, of mixed_task
         "[ascii ''a.com'', ascii ''b.com'', ascii ''c.com'', ascii ''d.com'', ascii ''e.com'']"
         "\<lparr>world = (), events = []\<rparr>"]
  obtain results s' where "extract_multiple_with mixed_task default_settings
          [ascii ''a.com'', ascii ''b.com'', ascii ''c.com'', ascii ''d.com'', ascii ''e.com'']
          None \<lparr>world = (), events = []\<rparr> = (Inr results, s')"
    by blast
  moreover have "fst (extract_multiple_with mixed_task default_settings
          [ascii ''a.com'', ascii ''b.com'', ascii ''c.com'', ascii ''d.com'', ascii ''e.com'']
          None \<lparr>world = (), events = []\<rparr>)
     = Inr [(ascii ''a.com'', ascii ''text of a.com''),
            (ascii ''c.com'', ascii ''text of c.com''),
            (ascii ''e.com'', ascii ''text of e.com'')]"
    using pos by (simp add: extract_multiple_with_def mixed_task_def ascii_def Let_def)
  ultimately show ?thesis using pos by simp
qed

text \<open>
  The claim as stated fails: the extraction of a page with an empty body succeeds (it
  returns the empty text, and caches it), but the url is not in the mapping.
\<close>

theorem extract_multiple_drops_empty_text:
  "fst (extract_content blank_server blank_text (ascii ''a.com'') new_fetcher) = Inr (Some []) \<and>
   fst (extract_multiple blank_server blank_text default_settings [ascii ''a.com''] None
          new_fetcher) = Inr []"
proof -
  have blank: "extract_content blank_server blank_text (ascii ''a.com'') new_fetcher =
     (Inr (Some []),
      \<lparr>world = 1,
       events = [Log (ExtractStarted (ascii ''a.com'')), Call_session_get (ascii ''a.com''),
                 Log (ExtractSucceeded (ascii ''a.com'') 0)],
       cache = [ascii ''a.com'' \<mapsto> []]\<rparr>)"
    apply (simp add: extract_content_def new_fetcher_def)
    apply (subst extract_retry.simps)
    apply (simp add: MAX_RETRIES_def blank_server_def blank_text_def Let_def clean_content_def
             strip_def MAX_CONTENT_LENGTH_def)
    done
  show ?thesis
    by (simp add: extract_multiple_def extract_multiple_with_def default_settings_def
          max_workers_or_default_def blank)
qed

subsection \<open>analyze_search_results\<close>

text \<open>
  C1 (as amended). When the AI client returns a text, \<open>analyze_search_results\<close> strips the
  whitespace and the code fence around it and parses the rest. If that is not valid JSON,
  it does not raise and returns the dict with exactly the four fields: \<open>key_findings\<close>
  holding the stripped text alone, \<open>summary\<close> the stripped text, \<open>topics\<close> empty and
  \<open>gaps\<close> empty. If it is a JSON object whose \<open>key_findings\<close> is absent or has a length,
  the object is returned as parsed, with whatever fields the model gave.
\<close>

theorem analyze_degrades_on_parse_failure:
  assumes "client (analysis_prompt query results extracted) (world s) = (Inr raw, w)"
  shows "\<exists>r s'. analyze_search_results client loads query results extracted s = (r, s') \<and>
           (loads (strip (strip_code_fence raw)) = None \<longrightarrow>
              r = Inr (raw_response_analysis (strip_code_fence raw)) \<and>
              has_four_fields (raw_response_analysis (strip_code_fence raw))) \<and>
           (\<forall>d. loads (strip (strip_code_fence raw)) = Some (JObj d) \<and> findings_sized d \<longrightarrow>
              r = Inr d)"
proof -
  have four: "has_four_fields (raw_response_analysis t)" for t
    by (simp add: has_four_fields_def raw_response_analysis_def)
  show ?thesis
    using assms four
    by (cases "loads (strip (strip_code_fence raw))")
       (auto simp: analyze_search_results_def call_api_def Let_def findings_sized_def
             split: json.splits sum.splits)
qed

theorem analyze_degrades_on_parse_failure_witness:
  "fst (analyze_search_results (fixed_client (ascii ''  ```json oops ```  '')) loads_empty_object
          (ascii ''q'') [] None \<lparr>world = (), events = []\<rparr>)
     = Inr [(ascii ''key_findings'', JArr [JStr (ascii '' oops '')]),
            (ascii ''summary'', JStr (ascii '' oops '')),
            (ascii ''topics'', JArr []),
            (ascii ''gaps'', JArr [])] \<and>
   fst (analyze_search_results (fixed_client (ascii ''{}'')) loads_empty_object
          (ascii ''q'') [] None \<lparr>world = (), events = []\<rparr>) = Inr []"
proof -
  have fence1: "strip_code_fence (ascii ''  ```json oops ```  '') = ascii '' oops ''"
    by (simp add: strip_code_fence_def strip_def py_isspace_def ascii_def Let_def suffix_to_prefix)
  have fence2: "strip_code_fence (ascii ''{}'') = ascii ''{}''"
    by (simp add: strip_code_fence_def strip_def py_isspace_def ascii_def Let_def suffix_to_prefix)
  have fails: "loads_empty_object (strip (ascii '' oops '')) = None"
    by (simp add: loads_empty_object_def strip_def py_isspace_def ascii_def)
  have parses: "loads_empty_object (strip (ascii ''{}'')) = Some (JObj [])"
    by (simp add: loads_empty_object_def strip_def py_isspace_def ascii_def)
  have sized: "findings_sized []"
    by (simp add: findings_sized_def dict_get_def)
  have c1: "fixed_client (ascii ''  ```json oops ```  '') (analysis_prompt (ascii ''q'') [] None)
              (world \<lparr>world = (), events = []\<rparr>) = (Inr (ascii ''  ```json oops ```  ''), ())"
    by (simp add: fixed_client_def)
  have c2: "fixed_client (ascii ''{}'') (analysis_prompt (ascii ''q'') [] None)
              (world \<lparr>world = (), events = []\<rparr>) = (Inr (ascii ''{}''), ())"
    by (simp add: fixed_client_def)
  show ?thesis
    using analyze_degrades_on_parse_failure[of "fixed_client (ascii ''  ```json oops ```  '')"
            "ascii ''q''" "[]" None "\<lparr>world = (), events = []\<rparr>"
            "ascii ''  ```json oops ```  ''" "()" loads_empty_object]
          analyze_degrades_on_parse_failure[of "fixed_client (ascii ''{}'')"
            "ascii ''q''" "[]" None "\<lparr>world = (), events = []\<rparr>"
            "ascii ''{}''" "()" loads_empty_object]
          c1 c2 fails parses sized
    by (auto simp: fence1 fence2 raw_response_analysis_def)
qed

text \<open>
  The claim as stated fails: for the response \<open>{}\<close>, which is valid JSON, the result is
  the empty dict, with none of the four fields.
\<close>

theorem analyze_returns_object_without_fields:
  "fst (analyze_search_results (fixed_client (ascii ''{}'')) loads_empty_object
          (ascii ''q'') [] None \<lparr>world = (), events = []\<rparr>) = Inr [] \<and>
   \<not> has_four_fields []"
proof -
  have fence2: "strip_code_fence (ascii ''{}'') = ascii ''{}''"
    by (simp add: strip_code_fence_def strip_def py_isspace_def ascii_def Let_def suffix_to_prefix)
  have parses: "loads_empty_object (strip (ascii ''{}'')) = Some (JObj [])"
    by (simp add: loads_empty_object_def strip_def py_isspace_def ascii_def)
  have "\<not> has_four_fields []"
    by (auto simp: has_four_fields_def)
  then show ?thesis
    by (simp add: analyze_search_results_def call_api_def fixed_client_def Let_def fence2 parses
          dict_get_def)
qed

subsection \<open>synthesize_research\<close>

lemma collect_sources_iff:
  "u \<in> collect_sources all_rounds \<longleftrightarrow>
     u \<noteq> [] \<and> (\<exists>rd \<in> set all_rounds. \<exists>r \<in> set (rd_search_results rd). url r = u)"
  by (auto simp: collect_sources_def result_urls_def)

lemma sublist_concat: "xs \<in> set xss \<Longrightarrow> sublist xs (concat xss)"
proof -
  assume "xs \<in> set xss"
  then obtain as bs where "xss = as @ xs # bs" by (auto dest: split_list)
  then have "concat xss = concat as @ xs @ concat bs" by simp
  then show ?thesis by (metis sublist_appendI)
qed

lemma references_section_heading: "sublist heading_cn (references_section links)"
  unfolding references_section_def by (metis sublist_appendI)

lemma references_section_lists:
  assumes "u \<in> set links"
  shows "sublist u (references_section links)"
proof -
  let ?f = "\<lambda>(i, link). str_nat i @ ascii ''. '' @ link @ [10::nat]"
  let ?items = "map ?f (zip [1..<Suc (length links)] links)"
  have "length [1..<Suc (length links)] = length links" by (simp del: upt_Suc)
  with assms obtain i where "(i, u) \<in> set (zip [1..<Suc (length links)] links)"
    by (metis in_set_impl_in_set_zip2)
  then have "?f (i, u) \<in> set ?items" by (simp only: set_map) (rule imageI)
  then have "sublist (?f (i, u)) (concat ?items)" by (rule sublist_concat)
  moreover have "sublist u (?f (i, u))"
    by (simp add: sublist_def) (metis append.assoc)
  ultimately have "sublist u (concat ?items)" by (rule sublist_order.order.trans[rotated])
  then obtain ps ss where "concat ?items = ps @ u @ ss" by (auto simp: sublist_def)
  then have "references_section links =
      ([10, 10] @ heading_cn @ ascii '' (References)'' @ [10, 10] @ ps) @ u @ ss"
    by (simp add: references_section_def)
  then show ?thesis by (metis sublist_appendI)
qed

lemma str_nat_1: "str_nat (Suc 0) = [49]"
  by (subst str_nat.simps) simp

lemma str_nat_2: "str_nat (Suc (Suc 0)) = [50]"
  by (subst str_nat.simps) simp

lemma one_round_links:
  "sorted_list_of_set (collect_sources one_round_data) = [ascii ''a.com'', ascii ''b.com'']"
  unfolding collect_sources_def
  by (simp only: sorted_list_of_set_sort_remdups)
     (simp add: result_urls_def one_round_data_def ascii_def)

lemma one_round_section:
  "references_section [ascii ''a.com'', ascii ''b.com''] =
     [10, 10] @ heading_cn @ ascii '' (References)'' @ [10, 10] @
     ascii ''1. a.com'' @ [10] @ ascii ''2. b.com'' @ [10]"
proof -
  have "[1..<Suc (length [ascii ''a.com'', ascii ''b.com''])] = [1, 2]"
    by (simp add: upt_rec)
  then show ?thesis
    by (simp add: references_section_def str_nat_1 str_nat_2 ascii_def)
qed

lemma one_round_summary: "rounds_summary one_round_data = Inr [([ascii ''topic''], None)]"
  by (simp add: one_round_data_def)

text \<open>
  C2 (as amended). When the prompt can be built and the AI client returns a report: if the
  report contains neither the Chinese references heading nor \<open>## References\<close>,
  \<open>synthesize_research\<close> returns it followed by a references section, which has the
  heading and lists every source url; otherwise it returns the report as it is. The urls
  listed are the sorted list, without duplicates, of the non-empty urls of all the
  search results of all rounds.
\<close>

theorem synthesize_appends_references:
  assumes "rounds_summary all_rounds = Inr summary"
    and "client (SynthesisPrompt subject summary) (world s) = (Inr report, w)"
  shows "\<exists>out s'. synthesize_research client subject all_rounds s = (Inr out, s') \<and>
      (\<not> sublist heading_cn report \<and> \<not> sublist heading_en report \<longrightarrow>
          out = report @ references_section (sorted_list_of_set (collect_sources all_rounds)) \<and>
          sublist heading_cn out \<and>
          (\<forall>u \<in> collect_sources all_rounds. sublist u out)) \<and>
      (sublist heading_cn report \<or> sublist heading_en report \<longrightarrow> out = report) \<and>
      sorted (sorted_list_of_set (collect_sources all_rounds)) \<and>
      distinct (sorted_list_of_set (collect_sources all_rounds)) \<and>
      set (sorted_list_of_set (collect_sources all_rounds)) =
        {u. u \<noteq> [] \<and> (\<exists>rd \<in> set all_rounds. \<exists>r \<in> set (rd_search_results rd). url r = u)}"
proof -
  let ?links = "sorted_list_of_set (collect_sources all_rounds)"
  have fin: "finite (collect_sources all_rounds)"
    by (simp add: collect_sources_def)
  have links: "set ?links = collect_sources all_rounds"
    using fin by simp
  have section_heading: "sublist heading_cn (report @ references_section ?links)"
    using references_section_heading[of ?links]
    by (metis sublist_order.order.trans sublist_append_leftI)
  have section_lists: "sublist u (report @ references_section ?links)"
    if "u \<in> collect_sources all_rounds" for u
    using references_section_lists[of u ?links] that links
    by (metis sublist_order.order.trans sublist_append_leftI)
  have chars: "set ?links =
      {u. u \<noteq> [] \<and> (\<exists>rd \<in> set all_rounds. \<exists>r \<in> set (rd_search_results rd). url r = u)}"
    unfolding links using collect_sources_iff[of _ all_rounds] by blast
  show ?thesis
  proof (cases "\<not> sublist heading_cn report \<and> \<not> sublist heading_en report")
    case True
    then have "synthesize_research client subject all_rounds s =
        (Inr (report @ references_section ?links),
         s\<lparr>world := w, events := events s @ [Log (SynthesisStarted subject), Log SynthesisDone]\<rparr>)"
      using assms by (simp add: synthesize_research_def call_api_def Let_def)
    with True section_heading section_lists chars show ?thesis by auto
  next
    case False
    then have "synthesize_research client subject all_rounds s =
        (Inr report,
         s\<lparr>world := w, events := events s @ [Log (SynthesisStarted subject), Log SynthesisDone]\<rparr>)"
      using assms by (auto simp: synthesize_research_def call_api_def Let_def)
    with False chars show ?thesis by auto
  qed
qed



theorem synthesize_appends_references_witness:
  "fst (synthesize_research (fixed_client (ascii ''# Report'')) (ascii ''topic'') one_round_data
          \<lparr>world = (), events = []\<rparr>)
     = Inr (ascii ''# Report'' @ [10, 10] @ heading_cn @ ascii '' (References)'' @ [10, 10] @
            ascii ''1. a.com'' @ [10] @ ascii ''2. b.com'' @ [10]) \<and>
   fst (synthesize_research (fixed_client (ascii ''## References: a.com'')) (ascii ''topic'')
          one_round_data \<lparr>world = (), events = []\<rparr>)
     = Inr (ascii ''## References: a.com'')"
proof -
  have lacks: "\<not> sublist heading_cn (ascii ''# Report'') \<and>
               \<not> sublist heading_en (ascii ''# Report'')"
    by (simp add: heading_cn_def heading_en_def ascii_def sublist_Cons_right)
  have has: "sublist heading_en (ascii ''## References: a.com'')"
    by (simp add: heading_en_def ascii_def sublist_Cons_right)
  have c1: "fixed_client (ascii ''# Report'')
              (SynthesisPrompt (ascii ''topic'') [([ascii ''topic''], None)])
              (world \<lparr>world = (), events = []\<rparr>) = (Inr (ascii ''# Report''), ())"
    by (simp add: fixed_client_def)
  have c2: "fixed_client (ascii ''## References: a.com'')
              (SynthesisPrompt (ascii ''topic'') [([ascii ''topic''], None)])
              (world \<lparr>world = (), events = []\<rparr>) = (Inr (ascii ''## References: a.com''), ())"
    by (simp add: fixed_client_def)
  show ?thesis
    using synthesize_appends_references[of one_round_data "[([ascii ''topic''], None)]"
            "fixed_client (ascii ''# Report'')" "ascii ''topic''"
            "\<lparr>world = (), events = []\<rparr>" "ascii ''# Report''" "()"]
          synthesize_appends_references[of one_round_data "[([ascii ''topic''], None)]"
            "fixed_client (ascii ''## References: a.com'')" "ascii ''topic''"
            "\<lparr>world = (), events = []\<rparr>" "ascii ''## References: a.com''" "()"]
          one_round_summary c1 c2 lacks has
    by (auto simp: one_round_links one_round_section)
qed

text \<open>
  The claim as stated fails: when the report of the model has the heading and no url, it
  is returned as it is, and a source url of the rounds is not in it.
\<close>

theorem synthesize_keeps_report_with_heading:
  "fst (synthesize_research (fixed_client (ascii ''## References'')) (ascii ''topic'')
          one_round_data \<lparr>world = (), events = []\<rparr>) = Inr (ascii ''## References'') \<and>
   ascii ''a.com'' \<in> collect_sources one_round_data \<and>
   \<not> sublist (ascii ''a.com'') (ascii ''## References'')"
proof -
  have h: "sublist heading_en (ascii ''## References'')"
    by (simp add: heading_en_def)
  have m: "ascii ''a.com'' \<in> collect_sources one_round_data"
    by (simp add: collect_sources_def result_urls_def one_round_data_def ascii_def)
  have n: "\<not> sublist (ascii ''a.com'') (ascii ''## References'')"
    by (simp add: ascii_def sublist_Cons_right)
  show ?thesis
    using h m n
    by (simp add: synthesize_research_def call_api_def fixed_client_def Let_def
          one_round_summary)
qed

subsection \<open>conduct_research\<close>


lemma call_logged: "call f st = (r, st') \<Longrightarrow> logged st' = logged st"
  by (auto simp: call_def split: prod.splits)

lemma notify_logged: "notify cb m c t st = (r, st') \<Longrightarrow> logged st' = logged st"
  by (auto simp: notify_def dest: call_logged split: option.splits)

lemma put_log_logged: "logged (put_log l st) = logged st @ [l]"
  by (simp add: put_log_def)

lemma generate_queries_rounds_logged:
  "generate_queries svc subject an n st = (qs, st') \<Longrightarrow>
     filter is_LogRound (logged st') = filter is_LogRound (logged st)"
  by (auto simp: generate_queries_def put_log_logged dest: call_logged split: prod.splits sum.splits)

lemma select_queries_rounds_logged:
  "select_queries svc subject dn n st = (r, st') \<Longrightarrow>
     filter is_LogRound (logged st') = filter is_LogRound (logged st)"
  by (auto simp: select_queries_def dest: generate_queries_rounds_logged
           split: if_splits prod.splits)

lemma select_queries_first:
  "select_queries svc subject dn 0 st = (Inr [subject], st)"
  by (simp add: select_queries_def)

lemma result_urls_simps [simp]:
  "result_urls [] = []"
  "result_urls (xs @ ys) = result_urls xs @ result_urls ys"
  by (simp_all add: result_urls_def)

lemma search_queries_inv:
  "search_queries svc cb rps mr n qs acc srcs st = (r, st') \<Longrightarrow>
     logged st' = logged st \<and>
     (\<forall>found srcs1. r = Inr (found, srcs1) \<longrightarrow>
        (\<exists>new. found = acc @ new \<and> srcs1 = srcs \<union> set (result_urls new)))"
proof (induction qs arbitrary: acc srcs st)
  case Nil
  then show ?case by (auto intro: exI[of _ "[]"])
next
  case (Cons q qs)
  obtain r1 st1 where n: "notify cb (MsgSearchingQuery (n + 1) mr q) (n + 1) mr st = (r1, st1)"
    by (cases "notify cb (MsgSearchingQuery (n + 1) mr q) (n + 1) mr st")
  show ?case
  proof (cases r1)
    case (Inl e)
    with n Cons.prems notify_logged[OF n] show ?thesis by auto
  next
    case ok: (Inr x)
    obtain r2 st2 where c: "call (search_engine_search svc q rps) st1 = (r2, st2)"
      by (cases "call (search_engine_search svc q rps) st1")
    show ?thesis
    proof (cases r2)
      case (Inl e)
      with ok n c Cons.prems notify_logged[OF n] call_logged[OF c] show ?thesis by auto
    next
      case (Inr results)
      with ok n c Cons.prems
      have rec: "search_queries svc cb rps mr n qs (acc @ results)
                   (srcs \<union> set (result_urls results)) st2 = (r, st')"
        by simp
      from Cons.IH[OF rec] notify_logged[OF n] call_logged[OF c]
      show ?thesis
        by auto
    qed
  qed
qed

lemma run_round_inv:
  assumes "run_round svc cb rps mr n q qs srcs st = (r, st')"
  shows "filter is_LogRound (logged st') = filter is_LogRound (logged st) \<and>
     (\<forall>rd srcs1. r = Inr (rd, srcs1) \<longrightarrow>
        round_number rd = n + 1 \<and> queries rd = q # qs \<and>
        srcs1 = srcs \<union> set (result_urls (search_results rd)))"
proof -
  obtain r1 st1 where s1: "search_queries svc cb rps mr n (q # qs) [] srcs st = (r1, st1)"
    by (cases "search_queries svc cb rps mr n (q # qs) [] srcs st")
  from search_queries_inv[OF s1] have l1: "logged st1 = logged st"
    and f1: "\<forall>found srcs1. r1 = Inr (found, srcs1) \<longrightarrow> srcs1 = srcs \<union> set (result_urls found)"
    by auto
  show ?thesis
  proof (cases r1)
    case (Inl e)
    with assms s1 l1 show ?thesis by (auto simp: run_round_def simp del: search_queries.simps)
  next
    case (Inr p)
    obtain found srcs1 where p: "p = (found, srcs1)" by (cases p)
    with Inr f1 have srcs1: "srcs1 = srcs \<union> set (result_urls found)" by simp
    show ?thesis
      using assms s1 Inr p l1 srcs1
      by (auto simp: run_round_def put_log_logged simp del: search_queries.simps
               dest!: notify_logged call_logged
               split: prod.splits sum.splits)
  qed
qed

lemma research_loop_cases [consumes 1, case_names notify_raised select_raised no_queries
    round_raised reached_max gaps_empty continue]:
  assumes run: "research_loop svc cb subject rps mr (n # rest) dn srcs st = (r, st')"
  obtains
    e where "notify cb (MsgSearching (n + 1) mr) (n + 1) mr (put_log (LogRound (n + 1)) st)
               = (Inl e, st')" "r = Inl e"
  | st1 e where "notify cb (MsgSearching (n + 1) mr) (n + 1) mr (put_log (LogRound (n + 1)) st)
               = (Inr (), st1)"
        "select_queries svc subject dn n st1 = (Inl e, st')" "r = Inl e"
  | st1 st2 where "notify cb (MsgSearching (n + 1) mr) (n + 1) mr (put_log (LogRound (n + 1)) st)
               = (Inr (), st1)"
        "select_queries svc subject dn n st1 = (Inr [], st2)"
        "r = Inr (dn, srcs)" "st' = put_log LogNoMoreQueries st2"
  | st1 st2 q qs e where
        "notify cb (MsgSearching (n + 1) mr) (n + 1) mr (put_log (LogRound (n + 1)) st)
               = (Inr (), st1)"
        "select_queries svc subject dn n st1 = (Inr (q # qs), st2)"
        "run_round svc cb rps mr n q qs srcs st2 = (Inl e, st')" "r = Inl e"
  | st1 st2 q qs rd srcs1 st3 where
        "notify cb (MsgSearching (n + 1) mr) (n + 1) mr (put_log (LogRound (n + 1)) st)
               = (Inr (), st1)"
        "select_queries svc subject dn n st1 = (Inr (q # qs), st2)"
        "run_round svc cb rps mr n q qs srcs st2 = (Inr (rd, srcs1), st3)"
        "n \<ge> mr - 1" "r = Inr (dn @ [rd], srcs1)" "st' = put_log LogMaxRounds st3"
  | st1 st2 q qs rd srcs1 st3 where
        "notify cb (MsgSearching (n + 1) mr) (n + 1) mr (put_log (LogRound (n + 1)) st)
               = (Inr (), st1)"
        "select_queries svc subject dn n st1 = (Inr (q # qs), st2)"
        "run_round svc cb rps mr n q qs srcs st2 = (Inr (rd, srcs1), st3)"
        "\<not> n \<ge> mr - 1" "no_gaps (analysis rd)"
        "r = Inr (dn @ [rd], srcs1)" "st' = put_log LogNoGaps st3"
  | st1 st2 q qs rd srcs1 st3 where
        "notify cb (MsgSearching (n + 1) mr) (n + 1) mr (put_log (LogRound (n + 1)) st)
               = (Inr (), st1)"
        "select_queries svc subject dn n st1 = (Inr (q # qs), st2)"
        "run_round svc cb rps mr n q qs srcs st2 = (Inr (rd, srcs1), st3)"
        "\<not> n \<ge> mr - 1" "\<not> no_gaps (analysis rd)"
        "research_loop svc cb subject rps mr rest (dn @ [rd]) srcs1 st3 = (r, st')"
proof -
  obtain r1 st1 where n1: "notify cb (MsgSearching (n + 1) mr) (n + 1) mr
                             (put_log (LogRound (n + 1)) st) = (r1, st1)"
    by (cases "notify cb (MsgSearching (n + 1) mr) (n + 1) mr (put_log (LogRound (n + 1)) st)")
  show ?thesis
  proof (cases r1)
    case (Inl e)
    with run n1 show ?thesis by (auto intro: that(1))
  next
    case ok: (Inr x)
    obtain r2 st2 where s2: "select_queries svc subject dn n st1 = (r2, st2)"
      by (cases "select_queries svc subject dn n st1")
    show ?thesis
    proof (cases r2)
      case (Inl e)
      with run n1 ok s2 show ?thesis by (auto intro: that(2))
    next
      case sel: (Inr qs0)
      show ?thesis
      proof (cases qs0)
        case Nil
        with run n1 ok s2 sel show ?thesis by (auto intro: that(3))
      next
        case (Cons q qs)
        obtain r3 st3 where r3: "run_round svc cb rps mr n q qs srcs st2 = (r3, st3)"
          by (cases "run_round svc cb rps mr n q qs srcs st2")
        show ?thesis
        proof (cases r3)
          case (Inl e)
          with run n1 ok s2 sel Cons r3 show ?thesis by (auto intro: that(4))
        next
          case (Inr p)
          obtain rd srcs1 where p: "p = (rd, srcs1)" by (cases p)
          consider "n \<ge> mr - 1" | "\<not> n \<ge> mr - 1" "no_gaps (analysis rd)"
            | "\<not> n \<ge> mr - 1" "\<not> no_gaps (analysis rd)" by blast
          then show ?thesis
          proof cases
            case 1
            with run n1 ok s2 sel Cons r3 Inr p show ?thesis by (auto intro: that(5))
          next
            case 2
            with run n1 ok s2 sel Cons r3 Inr p show ?thesis by (auto intro: that(6))
          next
            case 3
            with run n1 ok s2 sel Cons r3 Inr p show ?thesis by (auto intro: that(7))
          qed
        qed
      qed
    qed
  qed
qed

lemma research_loop_inv:
  "research_loop svc cb subject rps mr idxs dn srcs st = (r, st') \<Longrightarrow>
     length (filter is_LogRound (logged st'))
       \<le> length (filter is_LogRound (logged st)) + length idxs \<and>
     (\<forall>dn' srcs'. r = Inr (dn', srcs') \<longrightarrow>
        (\<exists>new. dn' = dn @ new \<and> length new \<le> length idxs \<and>
           map round_number new = map (\<lambda>i. i + 1) (take (length new) idxs) \<and>
           srcs' = srcs \<union> set (concat (map (\<lambda>rd. result_urls (search_results rd)) new)) \<and>
           (idxs \<noteq> [] \<and> hd idxs = 0 \<longrightarrow> new \<noteq> [])))"
proof (induction idxs arbitrary: dn srcs st)
  case Nil
  then show ?case by auto
next
  case (Cons n rest)
  let ?st0 = "put_log (LogRound (n + 1)) st"
  have l0: "filter is_LogRound (logged ?st0) = filter is_LogRound (logged st) @ [LogRound (n + 1)]"
    by (simp add: put_log_logged)
  from Cons.prems show ?case
  proof (cases rule: research_loop_cases)
    case (notify_raised e)
    with l0 notify_logged[OF notify_raised(1)] show ?thesis by simp
  next
    case (select_raised st1 e)
    with l0 notify_logged[OF select_raised(1)] select_queries_rounds_logged[OF select_raised(2)]
    show ?thesis by simp
  next
    case (no_queries st1 st2)
    have "n \<noteq> 0"
      using no_queries(2) by (auto simp: select_queries_def)
    with no_queries l0 notify_logged[OF no_queries(1)]
      select_queries_rounds_logged[OF no_queries(2)]
    show ?thesis by (simp add: put_log_logged)
  next
    case (round_raised st1 st2 q qs e)
    with l0 notify_logged[OF round_raised(1)] select_queries_rounds_logged[OF round_raised(2)]
      run_round_inv[OF round_raised(3)]
    show ?thesis by simp
  next
    case (reached_max st1 st2 q qs rd srcs1 st3)
    from run_round_inv[OF reached_max(3)]
    have rr: "filter is_LogRound (logged st3) = filter is_LogRound (logged st2)"
      "round_number rd = n + 1" "srcs1 = srcs \<union> set (result_urls (search_results rd))"
      by auto
    with reached_max l0 notify_logged[OF reached_max(1)]
      select_queries_rounds_logged[OF reached_max(2)]
    show ?thesis by (simp add: put_log_logged)
  next
    case (gaps_empty st1 st2 q qs rd srcs1 st3)
    from run_round_inv[OF gaps_empty(3)]
    have rr: "filter is_LogRound (logged st3) = filter is_LogRound (logged st2)"
      "round_number rd = n + 1" "srcs1 = srcs \<union> set (result_urls (search_results rd))"
      by auto
    with gaps_empty l0 notify_logged[OF gaps_empty(1)]
      select_queries_rounds_logged[OF gaps_empty(2)]
    show ?thesis by (simp add: put_log_logged)
  next
    case (continue st1 st2 q qs rd srcs1 st3)
    from run_round_inv[OF continue(3)]
    have rr: "filter is_LogRound (logged st3) = filter is_LogRound (logged st2)"
      "round_number rd = n + 1" "srcs1 = srcs \<union> set (result_urls (search_results rd))"
      by auto
    have logs: "length (filter is_LogRound (logged st3))
                  = Suc (length (filter is_LogRound (logged st)))"
      using rr(1) l0 notify_logged[OF continue(1)] select_queries_rounds_logged[OF continue(2)]
      by simp
    from Cons.IH[OF continue(6)]
    have ih1: "length (filter is_LogRound (logged st'))
                 \<le> length (filter is_LogRound (logged st3)) + length rest"
      and ih2: "\<forall>dn' srcs'. r = Inr (dn', srcs') \<longrightarrow>
        (\<exists>new. dn' = (dn @ [rd]) @ new \<and> length new \<le> length rest \<and>
           map round_number new = map (\<lambda>i. i + 1) (take (length new) rest) \<and>
           srcs' = srcs1 \<union> set (concat (map (\<lambda>rd. result_urls (search_results rd)) new)))"
      by blast+
    have "\<exists>new. dn' = dn @ new \<and> length new \<le> length (n # rest) \<and>
           map round_number new = map (\<lambda>i. i + 1) (take (length new) (n # rest)) \<and>
           srcs' = srcs \<union> set (concat (map (\<lambda>rd. result_urls (search_results rd)) new)) \<and>
           new \<noteq> []"
      if "r = Inr (dn', srcs')" for dn' srcs'
    proof -
      from ih2 that obtain new where new: "dn' = (dn @ [rd]) @ new" "length new \<le> length rest"
        "map round_number new = map (\<lambda>i. i + 1) (take (length new) rest)"
        "srcs' = srcs1 \<union> set (concat (map (\<lambda>rd. result_urls (search_results rd)) new))"
        by blast
      show ?thesis
        by (rule exI[of _ "rd # new"]) (use new rr in auto)
    qed
    with ih1 logs show ?thesis by auto
  qed
qed

lemma finish_inv:
  assumes "finish svc cb subject mr dn srcs st = (r, st')"
  shows "filter is_LogRound (logged st') = filter is_LogRound (logged st) \<and>
     (\<forall>res. r = Inr res \<longrightarrow>
        rounds res = dn \<and> all_sources res = sorted_list_of_set srcs \<and>
        total_rounds res = int (length dn) \<and> topic res = subject)"
  using assms
  by (auto simp: finish_def put_log_logged dest!: notify_logged call_logged
           split: prod.splits sum.splits)

lemma length_py_range: "length (py_range n) = nat n"
  by (simp add: py_range_def)

lemma take_py_range:
  assumes "k \<le> nat n"
  shows "map (\<lambda>i. i + 1) (take k (py_range n)) = [1..int k]"
proof (rule nth_equalityI)
  show "length (map (\<lambda>i. i + 1) (take k (py_range n))) = length [1..int k]"
    using assms by (simp add: py_range_def)
next
  fix i assume "i < length (map (\<lambda>i. i + 1) (take k (py_range n)))"
  then have i: "i < k" "i < nat n" using assms by (simp_all add: py_range_def)
  then show "map (\<lambda>i. i + 1) (take k (py_range n)) ! i = [1..int k] ! i"
    by (simp add: py_range_def)
qed

lemma hd_py_range: "1 \<le> n \<Longrightarrow> py_range n \<noteq> [] \<and> hd (py_range n) = 0"
  by (simp add: py_range_def upto_rec1)

lemma conduct_research_inv:
  assumes "conduct_research cfg svc subject max_rounds rps cb st = (r, st')"
  shows "length (filter is_LogRound (logged st'))
           \<le> length (filter is_LogRound (logged st)) + nat (max_rounds_or_default cfg max_rounds) \<and>
     (\<forall>res. r = Inr res \<longrightarrow>
        (\<exists>k. k \<le> nat (max_rounds_or_default cfg max_rounds) \<and>
           (1 \<le> max_rounds_or_default cfg max_rounds \<longrightarrow> 1 \<le> k) \<and>
           length (rounds res) = k \<and>
           map round_number (rounds res) = [1..int k] \<and>
           total_rounds res = int (length (rounds res)) \<and>
           all_sources res = sorted_list_of_set
             (set (concat (map (\<lambda>rd. result_urls (search_results rd)) (rounds res))))))"
proof -
  define mr where "mr = max_rounds_or_default cfg max_rounds"
  define rps1 where "rps1 = max_results_or_default cfg rps"
  define st0 where "st0 = put_log (LogStart subject mr) st"
  obtain r1 st1 where loop: "research_loop svc cb subject rps1 mr (py_range mr) [] {} st0 = (r1, st1)"
    by (cases "research_loop svc cb subject rps1 mr (py_range mr) [] {} st0")
  have l0: "filter is_LogRound (logged st0) = filter is_LogRound (logged st)"
    by (simp add: st0_def put_log_logged)
  from research_loop_inv[OF loop]
  have logs1: "length (filter is_LogRound (logged st1))
                 \<le> length (filter is_LogRound (logged st)) + nat mr"
    and res1: "\<forall>dn' srcs'. r1 = Inr (dn', srcs') \<longrightarrow>
        (\<exists>new. dn' = [] @ new \<and> length new \<le> length (py_range mr) \<and>
           map round_number new = map (\<lambda>i. i + 1) (take (length new) (py_range mr)) \<and>
           srcs' = {} \<union> set (concat (map (\<lambda>rd. result_urls (search_results rd)) new)) \<and>
           (py_range mr \<noteq> [] \<and> hd (py_range mr) = 0 \<longrightarrow> new \<noteq> []))"
    by (simp_all add: l0 length_py_range)
  show ?thesis
  proof (cases r1)
    case (Inl e)
    with assms loop have "r = Inl e" "st' = st1"
      by (auto simp: conduct_research_def Let_def mr_def rps1_def st0_def)
    with logs1 show ?thesis
      by (simp add: mr_def)
  next
    case (Inr p)
    obtain dn srcs where p: "p = (dn, srcs)" by (cases p)
    with Inr res1 have dn: "length dn \<le> nat mr"
      "map round_number dn = map (\<lambda>i. i + 1) (take (length dn) (py_range mr))"
      "srcs = set (concat (map (\<lambda>rd. result_urls (search_results rd)) dn))"
      "py_range mr \<noteq> [] \<and> hd (py_range mr) = 0 \<longrightarrow> dn \<noteq> []"
      by (auto simp: length_py_range)
    have fin: "finish svc cb subject mr dn srcs st1 = (r, st')"
      using assms loop Inr p by (simp add: conduct_research_def Let_def mr_def rps1_def st0_def)
    from finish_inv[OF fin]
    have logs2: "filter is_LogRound (logged st') = filter is_LogRound (logged st1)"
      and res2: "\<forall>res. r = Inr res \<longrightarrow>
        rounds res = dn \<and> all_sources res = sorted_list_of_set srcs \<and>
        total_rounds res = int (length dn)"
      by auto
    have nums: "map round_number dn = [1..int (length dn)]"
      using dn(1,2) take_py_range[of "length dn" mr] by simp
    have first: "1 \<le> mr \<longrightarrow> 1 \<le> length dn"
      using dn(4) hd_py_range[of mr] by (cases dn) auto
    show ?thesis
      unfolding mr_def[symmetric]
      using logs1 logs2 res2 dn(1,3) nums first by auto
  qed
qed

lemmas demo_eval =
  conduct_research_def max_rounds_or_default_def max_results_or_default_def
  default_settings_def py_range_def upto_rec1 select_queries_def generate_queries_def
  notify_def call_def put_log_def run_round_def demo_services_def never_gaps_def
  one_gap_then_none_def no_gaps_def dict_get_def finish_def new_orchestrator_def
  result_urls_def round_to_data_def Let_def ascii_def

text \<open>
  C4. For every topic, every \<open>max_rounds\<close> of at least 1 and every behaviour of the
  collaborators, \<open>conduct_research\<close> starts at most \<open>max_rounds\<close> iterations of its loop
  (each one writes one \<open>LogRound\<close> record), also when it ends with an exception; and when
  it returns a result, the round numbers of its rounds are exactly \<open>1..k\<close> for some
  \<open>k\<close> between 1 and \<open>max_rounds\<close>, and \<open>total_rounds\<close> is the number of rounds.
\<close>

theorem conduct_research_rounds_numbered:
  assumes "conduct_research cfg svc subject max_rounds results_per_search progress_callback st
             = (r, st')"
    and "1 \<le> max_rounds_or_default cfg max_rounds"
  shows "length (filter is_LogRound (logged st'))
           \<le> length (filter is_LogRound (logged st)) + nat (max_rounds_or_default cfg max_rounds) \<and>
         (\<forall>res. r = Inr res \<longrightarrow>
            (\<exists>k. 1 \<le> k \<and> k \<le> max_rounds_or_default cfg max_rounds \<and>
               map round_number (rounds res) = [1..k] \<and>
               int (length (rounds res)) = k \<and>
               total_rounds res = int (length (rounds res))))"
proof -
  from conduct_research_inv[OF assms(1)]
  have logs: "length (filter is_LogRound (logged st'))
           \<le> length (filter is_LogRound (logged st)) + nat (max_rounds_or_default cfg max_rounds)"
    and res: "\<forall>res. r = Inr res \<longrightarrow>
        (\<exists>k. k \<le> nat (max_rounds_or_default cfg max_rounds) \<and>
           (1 \<le> max_rounds_or_default cfg max_rounds \<longrightarrow> 1 \<le> k) \<and>
           length (rounds res) = k \<and>
           map round_number (rounds res) = [1..int k] \<and>
           total_rounds res = int (length (rounds res)))"
    by blast+
  have "\<exists>k. 1 \<le> k \<and> k \<le> max_rounds_or_default cfg max_rounds \<and>
               map round_number (rounds res) = [1..k] \<and>
               int (length (rounds res)) = k \<and>
               total_rounds res = int (length (rounds res))" if "r = Inr res" for res
  proof -
    from res that assms(2) obtain k where k: "k \<le> nat (max_rounds_or_default cfg max_rounds)"
      "1 \<le> k" "length (rounds res) = k" "map round_number (rounds res) = [1..int k]"
      "total_rounds res = int (length (rounds res))"
      by blast
    show ?thesis
      by (rule exI[of _ "int k"]) (use k in auto)
  qed
  with logs show ?thesis by blast
qed

theorem conduct_research_rounds_numbered_witness:
  "1 \<le> max_rounds_or_default default_settings (Some 3) \<and>
   map round_number (rounds (projr (fst (conduct_research default_settings
      (demo_services one_gap_then_none) (ascii ''topic'') (Some 3) None None new_orchestrator))))
     = [1, 2] \<and>
   total_rounds (projr (fst (conduct_research default_settings
      (demo_services one_gap_then_none) (ascii ''topic'') (Some 3) None None new_orchestrator)))
     = 2 \<and>
   length (filter is_LogRound (logged (snd (conduct_research default_settings
      (demo_services one_gap_then_none) (ascii ''topic'') (Some 3) None None new_orchestrator))))
     \<le> 3"
proof -
  have three: "1 \<le> max_rounds_or_default default_settings (Some 3)"
    by (simp add: max_rounds_or_default_def)
  have run: "map round_number (rounds (projr (fst (conduct_research default_settings
      (demo_services one_gap_then_none) (ascii ''topic'') (Some 3) None None new_orchestrator))))
     = [1, 2]"
    by (simp add: demo_eval)
  have total: "total_rounds (projr (fst (conduct_research default_settings
      (demo_services one_gap_then_none) (ascii ''topic'') (Some 3) None None new_orchestrator)))
     = 2"
    by (simp add: demo_eval)
  have "logged new_orchestrator = []"
    by (simp add: new_orchestrator_def)
  with conduct_research_rounds_numbered[OF surjective_pairing three,
         of "demo_services one_gap_then_none" "ascii ''topic''" None None new_orchestrator]
    three run total
  show ?thesis
    by (simp add: max_rounds_or_default_def)
qed

lemma nonempty_urls:
  "set (concat (map (\<lambda>rd. result_urls (search_results rd)) (rounds res)))
     = {u \<in> all_result_urls res. u \<noteq> []}"
  by (auto simp: all_result_urls_def result_urls_def)

text \<open>
  C5 (as amended). When \<open>conduct_research\<close> returns a result, its \<open>all_sources\<close> is
  the sorted list, without duplicates, of the urls of the search results of all its rounds
  that are not empty: \<open>if result.get('url')\<close> keeps an empty url out of the sources.
\<close>

theorem conduct_research_sources:
  assumes "conduct_research cfg svc subject max_rounds results_per_search progress_callback st
             = (Inr res, st')"
  shows "all_sources res = sorted_list_of_set {u \<in> all_result_urls res. u \<noteq> []} \<and>
         set (all_sources res) = {u \<in> all_result_urls res. u \<noteq> []} \<and>
         sorted (all_sources res) \<and> distinct (all_sources res)"
proof -
  from conduct_research_inv[OF assms]
  have src: "all_sources res = sorted_list_of_set
             (set (concat (map (\<lambda>rd. result_urls (search_results rd)) (rounds res))))"
    by blast
  then have src1: "all_sources res = sorted_list_of_set {u \<in> all_result_urls res. u \<noteq> []}"
    by (simp only: nonempty_urls)
  have fin: "finite {u \<in> all_result_urls res. u \<noteq> []}"
    by (simp add: all_result_urls_def)
  show ?thesis
    unfolding src1 using fin by simp
qed

theorem conduct_research_sources_witness:
  "all_sources (projr (fst (conduct_research default_settings
      (demo_services one_gap_then_none) (ascii ''topic'') (Some 3) None None new_orchestrator)))
     = [ascii ''a.com'']"
proof -
  have run: "fst (conduct_research default_settings
      (demo_services one_gap_then_none) (ascii ''topic'') (Some 3) None None new_orchestrator)
    = Inr (projr (fst (conduct_research default_settings
      (demo_services one_gap_then_none) (ascii ''topic'') (Some 3) None None new_orchestrator)))"
    by (simp add: demo_eval)
  have urls: "{u \<in> all_result_urls (projr (fst (conduct_research default_settings
      (demo_services one_gap_then_none) (ascii ''topic'') (Some 3) None None new_orchestrator))).
        u \<noteq> []} = {ascii ''a.com''}"
    by (auto simp: all_result_urls_def demo_eval)
  from run have full: "conduct_research default_settings
      (demo_services one_gap_then_none) (ascii ''topic'') (Some 3) None None new_orchestrator
    = (Inr (projr (fst (conduct_research default_settings
      (demo_services one_gap_then_none) (ascii ''topic'') (Some 3) None None new_orchestrator))),
       snd (conduct_research default_settings
      (demo_services one_gap_then_none) (ascii ''topic'') (Some 3) None None new_orchestrator))"
    by (metis prod.collapse)
  from conduct_research_sources[OF full]
  show ?thesis
    by (simp only: urls) simp
qed

lemma demo_run_one_round:
  "fst (conduct_research default_settings (demo_services never_gaps) (ascii ''topic'') (Some 3)
          None None new_orchestrator) = Inr demo_result"
  by (simp add: demo_eval demo_result_def)

text \<open>
  The claim as stated fails: a search result whose url is the empty string is in the
  round, and the empty string is not in \<open>all_sources\<close>.
\<close>

theorem all_sources_omits_empty_url:
  "fst (conduct_research default_settings (demo_services never_gaps) (ascii ''topic'') (Some 3)
          None None new_orchestrator) = Inr demo_result \<and>
   all_sources demo_result \<noteq> sorted_list_of_set (all_result_urls demo_result)"
proof -
  have "[] \<in> all_result_urls demo_result"
    by (simp add: all_result_urls_def demo_result_def)
  moreover have "finite (all_result_urls demo_result)"
    by (simp add: all_result_urls_def)
  ultimately have "[] \<in> set (sorted_list_of_set (all_result_urls demo_result))"
    by simp
  moreover have "[] \<notin> set (all_sources demo_result)"
    by (simp add: demo_result_def ascii_def)
  ultimately have "all_sources demo_result \<noteq> sorted_list_of_set (all_result_urls demo_result)"
    by metis
  with demo_run_one_round show ?thesis by simp
qed



lemma generate_queries_empty:
  assumes "generate_queries svc subject an n st = ([], st')"
  shows "\<exists>r x. ai_analyzer_generate_follow_up_queries svc subject an n (services_state st) = (r, x) \<and>
               (r = Inr [] \<or> (\<exists>e. r = Inl e))"
proof -
  obtain r x where c: "ai_analyzer_generate_follow_up_queries svc subject an n (services_state st)
                         = (r, x)"
    by (cases "ai_analyzer_generate_follow_up_queries svc subject an n (services_state st)")
  with assms have "r = Inr [] \<or> (\<exists>e. r = Inl e)"
    by (cases r) (auto simp: generate_queries_def call_def)
  with c show ?thesis by blast
qed

lemma select_queries_empty:
  assumes "select_queries svc subject dn n st = (Inr [], st')"
  shows "n \<noteq> 0 \<and> dn \<noteq> [] \<and>
         (\<exists>r x. ai_analyzer_generate_follow_up_queries svc subject (analysis (last dn)) n
                   (services_state st) = (r, x) \<and>
                 (r = Inr [] \<or> (\<exists>e. r = Inl e)))"
proof -
  from assms have n: "n \<noteq> 0" and dn: "dn \<noteq> []"
    by (auto simp: select_queries_def split: if_splits)
  with assms have "generate_queries svc subject (analysis (last dn)) n st = ([], st')"
    by (auto simp: select_queries_def split: prod.splits)
  from generate_queries_empty[OF this] n dn show ?thesis by blast
qed

lemma research_loop_last_round:
  "research_loop svc cb subject rps mr idxs dn srcs st = (Inr (dn', srcs'), st') \<Longrightarrow>
   idxs = [n..mr - 1] \<Longrightarrow>
   (dn \<noteq> [] \<longrightarrow> round_number (last dn) = n \<and> \<not> no_gaps (analysis (last dn))) \<Longrightarrow>
     (dn' \<noteq> [] \<longrightarrow>
        round_number (last dn') \<ge> mr \<or> no_gaps (analysis (last dn')) \<or>
        (\<exists>s r s'. ai_analyzer_generate_follow_up_queries svc subject (analysis (last dn'))
                     (round_number (last dn')) s = (r, s') \<and>
                   (r = Inr [] \<or> (\<exists>e. r = Inl e)))) \<and>
     length (filter is_LogRound (logged st')) =
       length (filter is_LogRound (logged st)) + (length dn' - length dn) +
       (if dn' \<noteq> [] \<and> round_number (last dn') < mr \<and> \<not> no_gaps (analysis (last dn'))
        then 1 else 0)"
proof (induction idxs arbitrary: n dn srcs st)
  case Nil
  then have "mr \<le> n" by simp
  with Nil show ?case by auto
next
  case (Cons i rest)
  have n1: "n \<le> mr - 1"
  proof (rule ccontr)
    assume "\<not> n \<le> mr - 1"
    then have "[n..mr - 1] = []" by simp
    with Cons.prems(2) show False by simp
  qed
  then have "[n..mr - 1] = n # [n + 1..mr - 1]" by (rule upto_rec1)
  with Cons.prems(2) n1 have n: "n \<le> mr - 1" "i = n" "rest = [n + 1..mr - 1]"
    by simp_all
  let ?st0 = "put_log (LogRound (i + 1)) st"
  have l0: "length (filter is_LogRound (logged ?st0))
              = Suc (length (filter is_LogRound (logged st)))"
    by (simp add: put_log_logged)
  from Cons.prems(1) show ?case
  proof (cases rule: research_loop_cases)
    case (no_queries st1 st2)
    from select_queries_empty[OF no_queries(2)] n(2)
    have sel: "dn \<noteq> []"
      "\<exists>r x. ai_analyzer_generate_follow_up_queries svc subject (analysis (last dn)) n
                (services_state st1) = (r, x) \<and> (r = Inr [] \<or> (\<exists>e. r = Inl e))"
      by auto
    from sel(1) Cons.prems(3) have last: "round_number (last dn) = n"
      "\<not> no_gaps (analysis (last dn))" by auto
    have logs: "length (filter is_LogRound (logged st'))
                  = Suc (length (filter is_LogRound (logged st)))"
      using no_queries(4) l0 notify_logged[OF no_queries(1)]
        select_queries_rounds_logged[OF no_queries(2)]
      by (simp add: put_log_logged)
    from no_queries(3) have same: "dn' = dn" by simp
    have "\<exists>s r s'. ai_analyzer_generate_follow_up_queries svc subject (analysis (last dn'))
                     (round_number (last dn')) s = (r, s') \<and>
                   (r = Inr [] \<or> (\<exists>e. r = Inl e))"
      using sel(2) last(1) same by blast
    moreover have "round_number (last dn') < mr"
      using same last(1) n(1) by simp
    ultimately show ?thesis
      using logs same sel(1) last(2) by simp
  next
    case (reached_max st1 st2 q qs rd srcs1 st3)
    from run_round_inv[OF reached_max(3)]
    have rr: "filter is_LogRound (logged st3) = filter is_LogRound (logged st2)"
      "round_number rd = i + 1" by auto
    have logs: "length (filter is_LogRound (logged st'))
                  = Suc (length (filter is_LogRound (logged st)))"
      using reached_max(6) rr(1) l0 notify_logged[OF reached_max(1)]
        select_queries_rounds_logged[OF reached_max(2)]
      by (simp add: put_log_logged)
    from reached_max(5) have dn': "dn' = dn @ [rd]" by simp
    from reached_max(4) rr(2) have "round_number rd \<ge> mr" by simp
    with logs dn' show ?thesis by simp
  next
    case (gaps_empty st1 st2 q qs rd srcs1 st3)
    from run_round_inv[OF gaps_empty(3)]
    have rr: "filter is_LogRound (logged st3) = filter is_LogRound (logged st2)"
      "round_number rd = i + 1" by auto
    have logs: "length (filter is_LogRound (logged st'))
                  = Suc (length (filter is_LogRound (logged st)))"
      using gaps_empty(7) rr(1) l0 notify_logged[OF gaps_empty(1)]
        select_queries_rounds_logged[OF gaps_empty(2)]
      by (simp add: put_log_logged)
    from gaps_empty(6) have dn': "dn' = dn @ [rd]" by simp
    with logs gaps_empty(5) show ?thesis by simp
  next
    case (continue st1 st2 q qs rd srcs1 st3)
    from run_round_inv[OF continue(3)]
    have rr: "filter is_LogRound (logged st3) = filter is_LogRound (logged st2)"
      "round_number rd = i + 1" by auto
    have logs: "length (filter is_LogRound (logged st3))
                  = Suc (length (filter is_LogRound (logged st)))"
      using rr(1) l0 notify_logged[OF continue(1)] select_queries_rounds_logged[OF continue(2)]
      by simp
    have pre: "dn @ [rd] \<noteq> [] \<longrightarrow>
                 round_number (last (dn @ [rd])) = n + 1 \<and>
                 \<not> no_gaps (analysis (last (dn @ [rd])))"
      using rr(2) n(2) continue(5) by simp
    from research_loop_inv[OF continue(6)] obtain new where new: "dn' = (dn @ [rd]) @ new"
      by blast
    from Cons.IH[OF continue(6) n(3) pre] new logs
    show ?thesis by simp
  qed simp_all
qed

lemma conduct_research_last_round:
  assumes "conduct_research cfg svc subject max_rounds rps cb st = (Inr res, st')"
  shows "(rounds res \<noteq> [] \<longrightarrow>
            round_number (last (rounds res)) \<ge> max_rounds_or_default cfg max_rounds \<or>
            no_gaps (analysis (last (rounds res))) \<or>
            (\<exists>s r s'. ai_analyzer_generate_follow_up_queries svc subject
                         (analysis (last (rounds res))) (round_number (last (rounds res))) s
                         = (r, s') \<and>
                       (r = Inr [] \<or> (\<exists>e. r = Inl e)))) \<and>
         length (filter is_LogRound (logged st')) =
           length (filter is_LogRound (logged st)) + length (rounds res) +
           (if rounds res \<noteq> [] \<and>
               round_number (last (rounds res)) < max_rounds_or_default cfg max_rounds \<and>
               \<not> no_gaps (analysis (last (rounds res)))
            then 1 else 0)"
proof -
  define mr where "mr = max_rounds_or_default cfg max_rounds"
  define rps1 where "rps1 = max_results_or_default cfg rps"
  define st0 where "st0 = put_log (LogStart subject mr) st"
  obtain r1 st1 where loop: "research_loop svc cb subject rps1 mr (py_range mr) [] {} st0 = (r1, st1)"
    by (cases "research_loop svc cb subject rps1 mr (py_range mr) [] {} st0")
  have l0: "filter is_LogRound (logged st0) = filter is_LogRound (logged st)"
    by (simp add: st0_def put_log_logged)
  show ?thesis
  proof (cases r1)
    case (Inl e)
    with assms loop show ?thesis
      by (auto simp: conduct_research_def Let_def mr_def rps1_def st0_def)
  next
    case (Inr p)
    obtain dn srcs where p: "p = (dn, srcs)" by (cases p)
    have fin: "finish svc cb subject mr dn srcs st1 = (Inr res, st')"
      using assms loop Inr p by (simp add: conduct_research_def Let_def mr_def rps1_def st0_def)
    from finish_inv[OF fin] have res: "rounds res = dn"
      "filter is_LogRound (logged st') = filter is_LogRound (logged st1)" by simp_all
    have range: "py_range mr = [0..mr - 1]" by (simp add: py_range_def)
    from research_loop_last_round[OF loop[unfolded Inr p] range] res l0
    show ?thesis
      by (simp add: mr_def)
  qed
qed



lemma call_never_raises:
  "never_raises f \<Longrightarrow> \<exists>v st'. call f st = (Inr v, st')"
  unfolding never_raises_def call_def
  by (metis (mono_tags, lifting) case_prod_conv)

lemma notify_never_raises:
  "others_never_raise svc cb \<Longrightarrow> \<exists>st'. notify cb m c t st = (Inr (), st')"
proof (cases cb)
  case None
  then show ?thesis by (simp add: notify_def)
next
  case (Some f)
  assume "others_never_raise svc cb"
  with Some have "never_raises (f m c t)" by (simp add: others_never_raise_def)
  from call_never_raises[OF this, of st] Some show ?thesis
    by (auto simp: notify_def)
qed

lemma search_queries_never_raises:
  assumes "others_never_raise svc cb"
  shows "\<exists>p st'. search_queries svc cb rps mr n qs acc srcs st = (Inr p, st')"
proof (induction qs arbitrary: acc srcs st)
  case Nil
  then show ?case by simp
next
  case (Cons q qs)
  from notify_never_raises[OF assms] obtain st1 where
    n: "notify cb (MsgSearchingQuery (n + 1) mr q) (n + 1) mr st = (Inr (), st1)" by blast
  from assms have "never_raises (search_engine_search svc q rps)"
    by (simp add: others_never_raise_def)
  from call_never_raises[OF this, of st1] obtain results st2 where
    c: "call (search_engine_search svc q rps) st1 = (Inr results, st2)" by blast
  from Cons[of "acc @ results" "srcs \<union> set (result_urls results)" st2] n c
  show ?case by simp
qed

lemma run_round_never_raises:
  assumes "others_never_raise svc cb"
  shows "\<exists>p st'. run_round svc cb rps mr n q qs srcs st = (Inr p, st')"
proof -
  from search_queries_never_raises[OF assms] obtain found srcs1 st1 where
    s: "search_queries svc cb rps mr n (q # qs) [] srcs st = (Inr (found, srcs1), st1)"
    by (metis surj_pair)
  from notify_never_raises[OF assms] obtain st2 where
    n1: "notify cb (MsgExtracting (n + 1) mr) (n + 1) mr
           (put_log (LogSearchDone (length found)) st1) = (Inr (), st2)" by blast
  from assms have "never_raises (content_extractor_extract_multiple svc (map url (take 10 found)))"
    by (simp add: others_never_raise_def)
  from call_never_raises[OF this, of st2] obtain extracted st3 where
    e: "call (content_extractor_extract_multiple svc (map url (take 10 found))) st2
          = (Inr extracted, st3)" by blast
  from notify_never_raises[OF assms] obtain st4 where
    n2: "notify cb (MsgAnalyzing (n + 1) mr) (n + 1) mr
           (put_log (LogExtractDone (length extracted)) st3) = (Inr (), st4)" by blast
  from assms have "never_raises (ai_analyzer_analyze_search_results svc q found extracted)"
    by (simp add: others_never_raise_def)
  from call_never_raises[OF this, of st4] obtain an st5 where
    a: "call (ai_analyzer_analyze_search_results svc q found extracted) st4 = (Inr an, st5)"
    by blast
  show ?thesis
    using s n1 e n2 a by (simp add: run_round_def del: search_queries.simps)
qed

lemma select_queries_never_raises:
  "round_num = 0 \<or> dn \<noteq> [] \<Longrightarrow> \<exists>qs st'. select_queries svc subject dn round_num st = (Inr qs, st')"
  by (auto simp: select_queries_def split: prod.splits)

lemma research_loop_never_raises:
  assumes "others_never_raise svc cb"
  shows "idxs = [] \<or> hd idxs = 0 \<or> dn \<noteq> [] \<Longrightarrow>
         \<exists>p st'. research_loop svc cb subject rps mr idxs dn srcs st = (Inr p, st')"
proof (induction idxs arbitrary: dn srcs st)
  case Nil
  then show ?case by simp
next
  case (Cons n rest)
  obtain r st' where run: "research_loop svc cb subject rps mr (n # rest) dn srcs st = (r, st')"
    by (cases "research_loop svc cb subject rps mr (n # rest) dn srcs st")
  from run have "\<exists>p. r = Inr p"
  proof (cases rule: research_loop_cases)
    case (notify_raised e)
    with notify_never_raises[OF assms, of "MsgSearching (n + 1) mr" "n + 1" mr
           "put_log (LogRound (n + 1)) st"]
    show ?thesis by simp
  next
    case (select_raised st1 e)
    with select_queries_never_raises[of n dn svc subject st1] Cons.prems
    show ?thesis by simp
  next
    case (round_raised st1 st2 q qs e)
    with run_round_never_raises[OF assms, of rps mr n q qs srcs st2]
    show ?thesis by simp
  next
    case (continue st1 st2 q qs rd srcs1 st3)
    with Cons.IH[of "dn @ [rd]" srcs1 st3] show ?thesis by simp
  qed simp_all
  with run show ?case by blast
qed

lemma finish_never_raises:
  assumes "others_never_raise svc cb"
  shows "\<exists>res st'. finish svc cb subject mr dn srcs st = (Inr res, st')"
proof -
  from notify_never_raises[OF assms] obtain st1 where
    n: "notify cb MsgFinalReport mr mr st = (Inr (), st1)" by blast
  from assms have "never_raises (ai_analyzer_synthesize_research svc subject (map round_to_data dn))"
    by (simp add: others_never_raise_def)
  from call_never_raises[OF this, of "put_log LogGeneratingReport st1"] obtain report st2 where
    c: "call (ai_analyzer_synthesize_research svc subject (map round_to_data dn))
          (put_log LogGeneratingReport st1) = (Inr report, st2)" by blast
  show ?thesis using n c by (simp add: finish_def)
qed

lemma conduct_research_never_raises:
  assumes "others_never_raise svc cb"
  shows "\<exists>res st'. conduct_research cfg svc subject max_rounds rps cb st = (Inr res, st')"
proof -
  define mr where "mr = max_rounds_or_default cfg max_rounds"
  have "py_range mr = [] \<or> hd (py_range mr) = 0 \<or> ([]::research_round list) \<noteq> []"
    using hd_py_range[of mr] by (cases "1 \<le> mr") (auto simp: py_range_def)
  from research_loop_never_raises[OF assms this] obtain dn srcs st1 where
    loop: "research_loop svc cb subject (max_results_or_default cfg rps) mr (py_range mr) [] {}
             (put_log (LogStart subject mr) st) = (Inr (dn, srcs), st1)"
    by (metis surj_pair)
  from finish_never_raises[OF assms, of subject mr dn srcs st1] loop
  show ?thesis
    by (simp add: conduct_research_def Let_def mr_def)
qed

lemma finish_synthesizes:
  assumes "finish svc cb subject mr dn srcs st = (Inr res, st')"
  shows "\<exists>s s'. ai_analyzer_synthesize_research svc subject
                  (map (\<lambda>r. \<lparr> rd_round_number = round_number r,
                               rd_queries = queries r,
                               rd_search_results = search_results r,
                               rd_analysis = analysis r \<rparr>) dn) s
                = (Inr (final_report res), s')"
proof -
  obtain r1 st1 where n: "notify cb MsgFinalReport mr mr st = (r1, st1)"
    by (cases "notify cb MsgFinalReport mr mr st")
  with assms obtain u where ok: "r1 = Inr u"
    by (cases r1) (auto simp: finish_def)
  obtain r2 x where c: "ai_analyzer_synthesize_research svc subject (map round_to_data dn)
                          (services_state (put_log LogGeneratingReport st1)) = (r2, x)"
    by (cases "ai_analyzer_synthesize_research svc subject (map round_to_data dn)
                 (services_state (put_log LogGeneratingReport st1))")
  with assms n ok have "r2 = Inr (final_report res)"
    by (cases r2) (auto simp: finish_def call_def)
  moreover have "map round_to_data dn =
      map (\<lambda>r. \<lparr> rd_round_number = round_number r, rd_queries = queries r,
                  rd_search_results = search_results r, rd_analysis = analysis r \<rparr>) dn"
    by (simp add: round_to_data_def)
  ultimately show ?thesis using c by metis
qed

lemma conduct_research_finish:
  assumes "conduct_research cfg svc subject max_rounds rps cb st = (Inr res, st')"
  obtains dn srcs st1 where
    "research_loop svc cb subject (max_results_or_default cfg rps)
       (max_rounds_or_default cfg max_rounds) (py_range (max_rounds_or_default cfg max_rounds))
       [] {} (put_log (LogStart subject (max_rounds_or_default cfg max_rounds)) st)
       = (Inr (dn, srcs), st1)"
    "finish svc cb subject (max_rounds_or_default cfg max_rounds) dn srcs st1 = (Inr res, st')"
proof -
  define mr where "mr = max_rounds_or_default cfg max_rounds"
  define rps1 where "rps1 = max_results_or_default cfg rps"
  define st0 where "st0 = put_log (LogStart subject mr) st"
  obtain r1 st1 where loop: "research_loop svc cb subject rps1 mr (py_range mr) [] {} st0 = (r1, st1)"
    by (cases "research_loop svc cb subject rps1 mr (py_range mr) [] {} st0")
  show ?thesis
  proof (cases r1)
    case (Inl e)
    with assms loop show ?thesis
      by (auto simp: conduct_research_def Let_def mr_def rps1_def st0_def)
  next
    case (Inr p)
    obtain dn srcs where p: "p = (dn, srcs)" by (cases p)
    have "finish svc cb subject mr dn srcs st1 = (Inr res, st')"
      using assms loop Inr p by (simp add: conduct_research_def Let_def mr_def rps1_def st0_def)
    with loop Inr p show ?thesis
      using that unfolding mr_def rps1_def st0_def by blast
  qed
qed

lemma conduct_research_synthesizes:
  assumes "conduct_research cfg svc subject max_rounds rps cb st = (Inr res, st')"
  shows "\<exists>s s'. ai_analyzer_synthesize_research svc subject
                  (map (\<lambda>r. \<lparr> rd_round_number = round_number r,
                               rd_queries = queries r,
                               rd_search_results = search_results r,
                               rd_analysis = analysis r \<rparr>) (rounds res)) s
                = (Inr (final_report res), s')"
proof -
  from assms obtain dn srcs st1 where
    fin: "finish svc cb subject (max_rounds_or_default cfg max_rounds) dn srcs st1 = (Inr res, st')"
    by (rule conduct_research_finish)
  from finish_inv[OF fin] have "rounds res = dn" by simp
  with finish_synthesizes[OF fin] show ?thesis by simp
qed

lemma select_queries_follow_up_fails:
  assumes "\<forall>tp an s. \<exists>e s'. ai_analyzer_generate_follow_up_queries svc tp an j s = (Inl e, s')"
    and "j \<noteq> 0"
  shows "select_queries svc subject dn j st \<noteq> (Inr (q # qs), st')"
proof (cases "dn = []")
  case True
  with assms(2) show ?thesis by (simp add: select_queries_def)
next
  case False
  from assms(1) obtain e x where
    "ai_analyzer_generate_follow_up_queries svc subject (analysis (last dn)) j (services_state st)
       = (Inl e, x)" by blast
  with False assms(2) show ?thesis
    by (simp add: select_queries_def generate_queries_def call_def)
qed

lemma research_loop_follow_up_fails:
  assumes H: "\<forall>tp an s. \<exists>e s'. ai_analyzer_generate_follow_up_queries svc tp an j s = (Inl e, s')"
    and j: "j \<noteq> 0"
  shows "research_loop svc cb subject rps mr idxs dn srcs st = (Inr (dn', srcs'), st') \<Longrightarrow>
         j \<notin> set (take (length dn' - length dn) idxs)"
proof (induction idxs arbitrary: dn srcs st)
  case Nil
  then show ?case by simp
next
  case (Cons n rest)
  from Cons.prems show ?case
  proof (cases rule: research_loop_cases)
    case (no_queries st1 st2)
    then show ?thesis by simp
  next
    case (reached_max st1 st2 q qs rd srcs1 st3)
    with select_queries_follow_up_fails[OF H j, of subject dn st1 q qs st2]
    have "n \<noteq> j" by auto
    with reached_max show ?thesis by auto
  next
    case (gaps_empty st1 st2 q qs rd srcs1 st3)
    with select_queries_follow_up_fails[OF H j, of subject dn st1 q qs st2]
    have "n \<noteq> j" by auto
    with gaps_empty show ?thesis by auto
  next
    case (continue st1 st2 q qs rd srcs1 st3)
    with select_queries_follow_up_fails[OF H j, of subject dn st1 q qs st2]
    have nj: "n \<noteq> j" by auto
    from research_loop_inv[OF continue(6)] obtain new where new: "dn' = (dn @ [rd]) @ new"
      by blast
    from Cons.IH[OF continue(6)] new nj show ?thesis
      by simp
  qed simp_all
qed

lemma conduct_research_follow_up_fails:
  assumes H: "\<forall>tp an s. \<exists>e s'. ai_analyzer_generate_follow_up_queries svc tp an j s = (Inl e, s')"
    and j: "1 \<le> j"
    and run: "conduct_research cfg svc subject max_rounds rps cb st = (Inr res, st')"
  shows "int (length (rounds res)) \<le> j"
proof -
  from run obtain dn srcs st1 where
    loop: "research_loop svc cb subject (max_results_or_default cfg rps)
       (max_rounds_or_default cfg max_rounds) (py_range (max_rounds_or_default cfg max_rounds))
       [] {} (put_log (LogStart subject (max_rounds_or_default cfg max_rounds)) st)
       = (Inr (dn, srcs), st1)"
    and fin: "finish svc cb subject (max_rounds_or_default cfg max_rounds) dn srcs st1
                = (Inr res, st')"
    by (rule conduct_research_finish)
  from finish_inv[OF fin] have res: "rounds res = dn" by simp
  from j have "j \<noteq> 0" by simp
  from research_loop_follow_up_fails[OF H this loop]
  have notin: "j \<notin> set (take (length dn) (py_range (max_rounds_or_default cfg max_rounds)))"
    by simp
  from research_loop_inv[OF loop]
  have len: "length dn \<le> length (py_range (max_rounds_or_default cfg max_rounds))"
    by auto
  show ?thesis
  proof (rule ccontr)
    assume "\<not> int (length (rounds res)) \<le> j"
    with res j have lt: "nat j < length dn" by simp
    with len have "py_range (max_rounds_or_default cfg max_rounds) ! nat j = j"
      using j by (simp add: py_range_def)
    moreover from lt len
    have "take (length dn) (py_range (max_rounds_or_default cfg max_rounds)) ! nat j
            = py_range (max_rounds_or_default cfg max_rounds) ! nat j"
      by simp
    ultimately have "j \<in> set (take (length dn) (py_range (max_rounds_or_default cfg max_rounds)))"
      using lt len by (metis length_take min.absorb2 nth_mem)
    with notin show False by simp
  qed
qed

text \<open>
  C10. When \<open>generate_follow_up_queries\<close> raises in the query selection of a round after
  the first, \<open>_generate_queries\<close> logs the error and returns no query: the loop ends there
  with the rounds and sources it had, no round is created, and \<open>conduct_research\<close> goes
  on to the synthesis with these rounds: the result carries them, and its report is what
  \<open>synthesize_research\<close> returned for the data of exactly these rounds. So in every result
  the report is the synthesis of the data of the rounds of the result, and when
  \<open>generate_follow_up_queries\<close> raises at every call for the round index \<open>j\<close>, the result
  has no round beyond round \<open>j\<close>, and exactly \<open>j\<close> rounds when the iteration for round
  \<open>j + 1\<close> was started. Whatever \<open>generate_follow_up_queries\<close> does, if no other
  collaborator raises, \<open>conduct_research\<close> returns a result.
\<close>

theorem follow_up_failure_ends_loop:
  assumes "round_num \<noteq> 0" and "done_rounds \<noteq> []"
    and "notify progress_callback (MsgSearching (round_num + 1) max_rounds) (round_num + 1)
           max_rounds (put_log (LogRound (round_num + 1)) st) = (Inr (), st1)"
    and "ai_analyzer_generate_follow_up_queries svc subject (analysis (last done_rounds))
           round_num (services_state st1) = (Inl e, x)"
  shows "generate_queries svc subject (analysis (last done_rounds)) round_num st1
           = ([], st1\<lparr>services_state := x, logged := logged st1 @ [LogGenerateQueriesFailed e]\<rparr>) \<and>
         research_loop svc progress_callback subject results_per_search max_rounds
           (round_num # rest) done_rounds sources st
           = (Inr (done_rounds, sources),
              st1\<lparr>services_state := x,
                  logged := logged st1 @ [LogGenerateQueriesFailed e, LogNoMoreQueries]\<rparr>) \<and>
         (\<forall>res st9.
            finish svc progress_callback subject max_rounds done_rounds sources
              (st1\<lparr>services_state := x,
                   logged := logged st1 @ [LogGenerateQueriesFailed e, LogNoMoreQueries]\<rparr>)
              = (Inr res, st9) \<longrightarrow>
            rounds res = done_rounds \<and> total_rounds res = int (length done_rounds) \<and>
            (\<exists>s s'. ai_analyzer_synthesize_research svc subject
                      (map (\<lambda>r. \<lparr> rd_round_number = round_number r,
                                   rd_queries = queries r,
                                   rd_search_results = search_results r,
                                   rd_analysis = analysis r \<rparr>) done_rounds) s
                    = (Inr (final_report res), s'))) \<and>
         (\<forall>cfg limit per_search st0 res st9.
            conduct_research cfg svc subject limit per_search progress_callback st0
              = (Inr res, st9) \<longrightarrow>
            (\<exists>s s'. ai_analyzer_synthesize_research svc subject
                      (map (\<lambda>r. \<lparr> rd_round_number = round_number r,
                                   rd_queries = queries r,
                                   rd_search_results = search_results r,
                                   rd_analysis = analysis r \<rparr>) (rounds res)) s
                    = (Inr (final_report res), s')) \<and>
            (\<forall>j. 1 \<le> j \<and>
                  (\<forall>tp an s. \<exists>e1 s'.
                     ai_analyzer_generate_follow_up_queries svc tp an j s = (Inl e1, s')) \<longrightarrow>
                  int (length (rounds res)) \<le> j \<and>
                  (length (filter is_LogRound (logged st9))
                     = length (filter is_LogRound (logged st0)) + nat j + 1 \<longrightarrow>
                   int (length (rounds res)) = j))) \<and>
         (\<forall>cfg limit per_search st0.
            others_never_raise svc progress_callback \<longrightarrow>
            (\<exists>res st9. conduct_research cfg svc subject limit per_search progress_callback st0
                          = (Inr res, st9)))"
proof -
  have gen: "generate_queries svc subject (analysis (last done_rounds)) round_num st1
           = ([], st1\<lparr>services_state := x, logged := logged st1 @ [LogGenerateQueriesFailed e]\<rparr>)"
    using assms(4) by (simp add: generate_queries_def call_def put_log_def)
  then have sel: "select_queries svc subject done_rounds round_num st1
           = (Inr [], st1\<lparr>services_state := x, logged := logged st1 @ [LogGenerateQueriesFailed e]\<rparr>)"
    using assms(1,2) by (simp add: select_queries_def)
  have loop: "research_loop svc progress_callback subject results_per_search max_rounds
           (round_num # rest) done_rounds sources st
           = (Inr (done_rounds, sources),
              st1\<lparr>services_state := x,
                  logged := logged st1 @ [LogGenerateQueriesFailed e, LogNoMoreQueries]\<rparr>)"
    using assms(3) sel by (simp add: put_log_def)
  have fin: "rounds res = done_rounds \<and> total_rounds res = int (length done_rounds) \<and>
            (\<exists>s s'. ai_analyzer_synthesize_research svc subject
                      (map (\<lambda>r. \<lparr> rd_round_number = round_number r,
                                   rd_queries = queries r,
                                   rd_search_results = search_results r,
                                   rd_analysis = analysis r \<rparr>) done_rounds) s
                    = (Inr (final_report res), s'))"
    if "finish svc progress_callback subject max_rounds done_rounds sources
              (st1\<lparr>services_state := x,
                   logged := logged st1 @ [LogGenerateQueriesFailed e, LogNoMoreQueries]\<rparr>)
              = (Inr res, st9)" for res st9
    using finish_inv[OF that] finish_synthesizes[OF that] by simp
  have top: "(\<exists>s s'. ai_analyzer_synthesize_research svc subject
                      (map (\<lambda>r. \<lparr> rd_round_number = round_number r,
                                   rd_queries = queries r,
                                   rd_search_results = search_results r,
                                   rd_analysis = analysis r \<rparr>) (rounds res)) s
                    = (Inr (final_report res), s')) \<and>
            (\<forall>j. 1 \<le> j \<and>
                  (\<forall>tp an s. \<exists>e1 s'.
                     ai_analyzer_generate_follow_up_queries svc tp an j s = (Inl e1, s')) \<longrightarrow>
                  int (length (rounds res)) \<le> j \<and>
                  (length (filter is_LogRound (logged st9))
                     = length (filter is_LogRound (logged st0)) + nat j + 1 \<longrightarrow>
                   int (length (rounds res)) = j))"
    if run: "conduct_research cfg svc subject limit per_search progress_callback st0
               = (Inr res, st9)"
    for cfg limit per_search st0 res st9
  proof -
    have "int (length (rounds res)) \<le> j \<and>
            (length (filter is_LogRound (logged st9))
               = length (filter is_LogRound (logged st0)) + nat j + 1 \<longrightarrow>
             int (length (rounds res)) = j)"
      if j: "1 \<le> j"
        and H: "\<forall>tp an s. \<exists>e1 s'.
                  ai_analyzer_generate_follow_up_queries svc tp an j s = (Inl e1, s')"
      for j
    proof -
      from conduct_research_follow_up_fails[OF H j run]
      have le: "int (length (rounds res)) \<le> j" .
      from conduct_research_last_round[OF run]
      have "length (filter is_LogRound (logged st9))
              \<le> length (filter is_LogRound (logged st0)) + length (rounds res) + 1"
        by simp
      with le show ?thesis by auto
    qed
    with conduct_research_synthesizes[OF run] show ?thesis by blast
  qed
  from gen loop fin top conduct_research_never_raises show ?thesis by blast
qed

theorem follow_up_failure_ends_loop_witness:
  "research_loop (failing_follow_up (demo_services one_gap_then_none)) (Some silent_callback)
     (ascii ''topic'') 10 3 [1, 2] (rounds demo_result) {ascii ''a.com''}
     \<lparr>services_state = 1, logged = []\<rparr>
     = (Inr (rounds demo_result, {ascii ''a.com''}),
        \<lparr>services_state = 1,
         logged = [LogRound 2, LogGenerateQueriesFailed (OtherException (ascii ''api down'')),
                   LogNoMoreQueries]\<rparr>) \<and>
   others_never_raise (failing_follow_up (demo_services one_gap_then_none))
     (Some silent_callback) \<and>
   total_rounds (projr (fst (conduct_research default_settings
      (failing_follow_up (demo_services one_gap_then_none)) (ascii ''topic'') (Some 3) None
      (Some silent_callback) new_orchestrator))) = 1 \<and>
   final_report (projr (fst (conduct_research default_settings
      (failing_follow_up (demo_services one_gap_then_none)) (ascii ''topic'') (Some 3) None
      (Some silent_callback) new_orchestrator))) = ascii ''report'' \<and>
   map round_number (rounds (projr (fst (conduct_research default_settings
      (failing_follow_up (demo_services one_gap_then_none)) (ascii ''topic'') (Some 3) None
      (Some silent_callback) new_orchestrator)))) = [1] \<and>
   logged (snd (conduct_research default_settings
      (failing_follow_up (demo_services one_gap_then_none)) (ascii ''topic'') (Some 3) None
      (Some silent_callback) new_orchestrator))
     = [LogStart (ascii ''topic'') 3, LogRound 1, LogSearchDone 2, LogExtractDone 1,
        LogAnalysisDone, LogRound 2,
        LogGenerateQueriesFailed (OtherException (ascii ''api down'')), LogNoMoreQueries,
        LogGeneratingReport, LogResearchDone 1 1]"
proof -
  have numbers: "map round_number (rounds (projr (fst (conduct_research default_settings
      (failing_follow_up (demo_services one_gap_then_none)) (ascii ''topic'') (Some 3) None
      (Some silent_callback) new_orchestrator)))) = [1]"
    by (simp add: demo_eval failing_follow_up_def silent_callback_def)
  have entries: "logged (snd (conduct_research default_settings
      (failing_follow_up (demo_services one_gap_then_none)) (ascii ''topic'') (Some 3) None
      (Some silent_callback) new_orchestrator))
     = [LogStart (ascii ''topic'') 3, LogRound 1, LogSearchDone 2, LogExtractDone 1,
        LogAnalysisDone, LogRound 2,
        LogGenerateQueriesFailed (OtherException (ascii ''api down'')), LogNoMoreQueries,
        LogGeneratingReport, LogResearchDone 1 1]"
    by (simp add: demo_eval failing_follow_up_def silent_callback_def)
  have later: "(1::int) \<noteq> 0" by simp
  have some: "rounds demo_result \<noteq> []" by (simp add: demo_result_def)
  have n: "notify (Some silent_callback) (MsgSearching (1 + 1) 3) (1 + 1) 3
             (put_log (LogRound (1 + 1)) \<lparr>services_state = 1, logged = []\<rparr>)
           = (Inr (), \<lparr>services_state = 1, logged = [LogRound 2]\<rparr>)"
    by (simp add: notify_def call_def put_log_def silent_callback_def)
  have f: "ai_analyzer_generate_follow_up_queries
             (failing_follow_up (demo_services one_gap_then_none)) (ascii ''topic'')
             (analysis (last (rounds demo_result))) 1
             (services_state \<lparr>services_state = 1, logged = [LogRound 2]\<rparr>)
           = (Inl (OtherException (ascii ''api down'')), 1)"
    by (simp add: failing_follow_up_def)
  have quiet: "others_never_raise (failing_follow_up (demo_services one_gap_then_none))
                 (Some silent_callback)"
    by (simp add: others_never_raise_def never_raises_def failing_follow_up_def
          demo_services_def silent_callback_def)
  have total: "total_rounds (projr (fst (conduct_research default_settings
      (failing_follow_up (demo_services one_gap_then_none)) (ascii ''topic'') (Some 3) None
      (Some silent_callback) new_orchestrator))) = 1"
    by (simp add: demo_eval failing_follow_up_def silent_callback_def)
  have report: "final_report (projr (fst (conduct_research default_settings
      (failing_follow_up (demo_services one_gap_then_none)) (ascii ''topic'') (Some 3) None
      (Some silent_callback) new_orchestrator))) = ascii ''report''"
    by (simp add: demo_eval failing_follow_up_def silent_callback_def)
  from follow_up_failure_ends_loop[OF later some n f, where rest = "[2]"
         and sources = "{ascii ''a.com''}" and results_per_search = 10]
  have "research_loop (failing_follow_up (demo_services one_gap_then_none)) (Some silent_callback)
     (ascii ''topic'') 10 3 [1, 2] (rounds demo_result) {ascii ''a.com''}
     \<lparr>services_state = 1, logged = []\<rparr>
     = (Inr (rounds demo_result, {ascii ''a.com''}),
        \<lparr>services_state = 1,
         logged = [LogRound 2, LogGenerateQueriesFailed (OtherException (ascii ''api down'')),
                   LogNoMoreQueries]\<rparr>)"
    by simp
  with quiet total report numbers entries show ?thesis by simp
qed

lemma call_unmarked:
  assumes "keeps_unmarked mark f" "mark (services_state st) = None" "call f st = (r, st')"
  shows "mark (services_state st') = None"
  using assms by (auto simp: keeps_unmarked_def call_def split: prod.splits)

lemma put_log_state [simp]: "services_state (put_log l st) = services_state st"
  by (simp add: put_log_def)

lemma notify_marks:
  assumes "callback_marks mark f" "mark (services_state st) = None"
    "notify (Some f) m c t st = (r, st')"
  shows "mark (services_state st') = (case r of Inl e \<Rightarrow> Some e | Inr u \<Rightarrow> None)"
proof -
  obtain r0 x where c: "f m c t (services_state st) = (r0, x)"
    by (cases "f m c t (services_state st)")
  with assms(3) have "r = r0" "services_state st' = x"
    by (auto simp: notify_def call_def)
  with assms(1,2) c show ?thesis
    unfolding callback_marks_def by blast
qed

lemma generate_queries_unmarked:
  assumes "services_keep_unmarked mark svc" "mark (services_state st) = None"
    "generate_queries svc subject an n st = (qs, st')"
  shows "mark (services_state st') = None"
proof -
  obtain r st1 where c: "call (ai_analyzer_generate_follow_up_queries svc subject an n) st = (r, st1)"
    by (cases "call (ai_analyzer_generate_follow_up_queries svc subject an n) st")
  from assms(1) have "keeps_unmarked mark (ai_analyzer_generate_follow_up_queries svc subject an n)"
    by (simp add: services_keep_unmarked_def)
  from call_unmarked[OF this assms(2) c] have "mark (services_state st1) = None" .
  with assms(3) c show ?thesis
    by (cases r) (auto simp: generate_queries_def)
qed

lemma select_queries_unmarked:
  assumes "services_keep_unmarked mark svc" "mark (services_state st) = None"
    "select_queries svc subject dn n st = (r, st')"
  shows "mark (services_state st') = None"
  using assms generate_queries_unmarked[OF assms(1,2)]
  by (auto simp: select_queries_def split: if_splits prod.splits)

lemma search_queries_marks:
  assumes cm: "callback_marks mark f" and sk: "services_keep_unmarked mark svc"
  shows "mark (services_state st) = None \<Longrightarrow>
         search_queries svc (Some f) rps mr n qs acc srcs st = (r, st') \<Longrightarrow>
         mark (services_state st') = (case r of Inl e \<Rightarrow> mark (services_state st') | Inr p \<Rightarrow> None) \<and>
         (\<forall>e. mark (services_state st') = Some e \<longrightarrow> r = Inl e)"
proof (induction qs arbitrary: acc srcs st)
  case Nil
  then show ?case by auto
next
  case (Cons q qs)
  obtain r1 st1 where n1: "notify (Some f) (MsgSearchingQuery (n + 1) mr q) (n + 1) mr st = (r1, st1)"
    by (cases "notify (Some f) (MsgSearchingQuery (n + 1) mr q) (n + 1) mr st")
  note m1 = notify_marks[OF cm Cons.prems(1) n1]
  show ?case
  proof (cases r1)
    case (Inl e)
    with n1 m1 Cons.prems(2) show ?thesis by auto
  next
    case ok: (Inr u)
    with m1 have u1: "mark (services_state st1) = None" by simp
    obtain r2 st2 where c: "call (search_engine_search svc q rps) st1 = (r2, st2)"
      by (cases "call (search_engine_search svc q rps) st1")
    from sk have "keeps_unmarked mark (search_engine_search svc q rps)"
      by (simp add: services_keep_unmarked_def)
    from call_unmarked[OF this u1 c] have u2: "mark (services_state st2) = None" .
    show ?thesis
    proof (cases r2)
      case (Inl e)
      with n1 ok c u2 Cons.prems(2) show ?thesis by auto
    next
      case (Inr results)
      with n1 ok c Cons.prems(2)
      have "search_queries svc (Some f) rps mr n qs (acc @ results)
              (srcs \<union> set (result_urls results)) st2 = (r, st')" by simp
      from Cons.IH[OF u2 this] show ?thesis .
    qed
  qed
qed

lemma unmarked_result:
  "\<forall>e. mark s = Some e \<longrightarrow> (Inr p :: exn + 'a) = Inl e \<Longrightarrow> mark s = None"
  by (cases "mark s") auto

lemma run_round_marks:
  assumes cm: "callback_marks mark f" and sk: "services_keep_unmarked mark svc"
    and u: "mark (services_state st) = None"
    and run: "run_round svc (Some f) rps mr n q qs srcs st = (r, st')"
  shows "\<forall>e. mark (services_state st') = Some e \<longrightarrow> r = Inl e"
proof -
  obtain r1 st1 where s1: "search_queries svc (Some f) rps mr n (q # qs) [] srcs st = (r1, st1)"
    by (cases "search_queries svc (Some f) rps mr n (q # qs) [] srcs st")
  from search_queries_marks[OF cm sk u s1]
  have q1: "\<forall>e. mark (services_state st1) = Some e \<longrightarrow> r1 = Inl e" by simp
  show ?thesis
  proof (cases r1)
    case (Inl e)
    with run s1 have "r = Inl e" "st' = st1"
      by (auto simp: run_round_def simp del: search_queries.simps)
    with q1 Inl show ?thesis by simp
  next
    case (Inr p)
    obtain found srcs1 where p: "p = (found, srcs1)" by (cases p)
    from q1 Inr have u1: "mark (services_state st1) = None"
      by (cases "mark (services_state st1)") auto
    obtain r2 st2 where n2: "notify (Some f) (MsgExtracting (n + 1) mr) (n + 1) mr
                               (put_log (LogSearchDone (length found)) st1) = (r2, st2)"
      by (cases "notify (Some f) (MsgExtracting (n + 1) mr) (n + 1) mr
                   (put_log (LogSearchDone (length found)) st1)")
    from u1 have u1': "mark (services_state (put_log (LogSearchDone (length found)) st1)) = None"
      by simp
    note m2 = notify_marks[OF cm u1' n2]
    show ?thesis
    proof (cases r2)
      case (Inl e)
      with run s1 Inr p n2 have "r = Inl e" "st' = st2"
        by (auto simp: run_round_def simp del: search_queries.simps)
      with m2 Inl show ?thesis by simp
    next
      case ok2: (Inr u2)
      with m2 have u2: "mark (services_state st2) = None" by simp
      obtain r3 st3 where c3: "call (content_extractor_extract_multiple svc
                                      (map url (take 10 found))) st2 = (r3, st3)"
        by (cases "call (content_extractor_extract_multiple svc (map url (take 10 found))) st2")
      from sk have "keeps_unmarked mark (content_extractor_extract_multiple svc
                                           (map url (take 10 found)))"
        by (simp add: services_keep_unmarked_def)
      from call_unmarked[OF this u2 c3] have u3: "mark (services_state st3) = None" .
      show ?thesis
      proof (cases r3)
        case (Inl e)
        with run s1 Inr p n2 ok2 c3 have "st' = st3"
          by (auto simp: run_round_def simp del: search_queries.simps)
        with u3 show ?thesis by simp
      next
        case ok3: (Inr extracted)
        obtain r4 st4 where n4: "notify (Some f) (MsgAnalyzing (n + 1) mr) (n + 1) mr
                                   (put_log (LogExtractDone (length extracted)) st3) = (r4, st4)"
          by (cases "notify (Some f) (MsgAnalyzing (n + 1) mr) (n + 1) mr
                       (put_log (LogExtractDone (length extracted)) st3)")
        from u3 have u3': "mark (services_state (put_log (LogExtractDone (length extracted)) st3))
                             = None" by simp
        note m4 = notify_marks[OF cm u3' n4]
        show ?thesis
        proof (cases r4)
          case (Inl e)
          with run s1 Inr p n2 ok2 c3 ok3 n4 have "r = Inl e" "st' = st4"
            by (auto simp: run_round_def simp del: search_queries.simps)
          with m4 Inl show ?thesis by simp
        next
          case ok4: (Inr u4)
          with m4 have u4: "mark (services_state st4) = None" by simp
          obtain r5 st5 where c5: "call (ai_analyzer_analyze_search_results svc q found extracted)
                                     st4 = (r5, st5)"
            by (cases "call (ai_analyzer_analyze_search_results svc q found extracted) st4")
          from sk have "keeps_unmarked mark
                          (ai_analyzer_analyze_search_results svc q found extracted)"
            by (simp add: services_keep_unmarked_def)
          from call_unmarked[OF this u4 c5] have u5: "mark (services_state st5) = None" .
          from run s1 Inr p n2 ok2 c3 ok3 n4 ok4 c5
          have "services_state st' = services_state st5"
            by (cases r5) (auto simp: run_round_def simp del: search_queries.simps)
          with u5 show ?thesis by simp
        qed
      qed
    qed
  qed
qed

lemma research_loop_marks:
  assumes cm: "callback_marks mark f" and sk: "services_keep_unmarked mark svc"
  shows "mark (services_state st) = None \<Longrightarrow>
         research_loop svc (Some f) subject rps mr idxs dn srcs st = (r, st') \<Longrightarrow>
         \<forall>e. mark (services_state st') = Some e \<longrightarrow> r = Inl e"
proof (induction idxs arbitrary: dn srcs st)
  case Nil
  then show ?case by auto
next
  case (Cons n rest)
  have u0: "mark (services_state (put_log (LogRound (n + 1)) st)) = None"
    using Cons.prems(1) by simp
  from Cons.prems(2) show ?case
  proof (cases rule: research_loop_cases)
    case (notify_raised e)
    from notify_marks[OF cm u0 notify_raised(1)] notify_raised(2) show ?thesis by simp
  next
    case (select_raised st1 e)
    from notify_marks[OF cm u0 select_raised(1)] have "mark (services_state st1) = None" by simp
    from select_queries_unmarked[OF sk this select_raised(2)] show ?thesis by simp
  next
    case (no_queries st1 st2)
    from notify_marks[OF cm u0 no_queries(1)] have "mark (services_state st1) = None" by simp
    from select_queries_unmarked[OF sk this no_queries(2)] no_queries(4) show ?thesis by simp
  next
    case (round_raised st1 st2 q qs e)
    from notify_marks[OF cm u0 round_raised(1)] have "mark (services_state st1) = None" by simp
    from select_queries_unmarked[OF sk this round_raised(2)]
    have "mark (services_state st2) = None" .
    from run_round_marks[OF cm sk this round_raised(3)] round_raised(4) show ?thesis by simp
  next
    case (reached_max st1 st2 q qs rd srcs1 st3)
    from notify_marks[OF cm u0 reached_max(1)] have "mark (services_state st1) = None" by simp
    from select_queries_unmarked[OF sk this reached_max(2)]
    have "mark (services_state st2) = None" .
    from run_round_marks[OF cm sk this reached_max(3)]
    have "mark (services_state st3) = None"
      by (cases "mark (services_state st3)") auto
    with reached_max(6) show ?thesis by simp
  next
    case (gaps_empty st1 st2 q qs rd srcs1 st3)
    from notify_marks[OF cm u0 gaps_empty(1)] have "mark (services_state st1) = None" by simp
    from select_queries_unmarked[OF sk this gaps_empty(2)]
    have "mark (services_state st2) = None" .
    from run_round_marks[OF cm sk this gaps_empty(3)]
    have "mark (services_state st3) = None"
      by (cases "mark (services_state st3)") auto
    with gaps_empty(7) show ?thesis by simp
  next
    case (continue st1 st2 q qs rd srcs1 st3)
    from notify_marks[OF cm u0 continue(1)] have "mark (services_state st1) = None" by simp
    from select_queries_unmarked[OF sk this continue(2)]
    have "mark (services_state st2) = None" .
    from run_round_marks[OF cm sk this continue(3)]
    have "mark (services_state st3) = None"
      by (cases "mark (services_state st3)") auto
    from Cons.IH[OF this continue(6)] show ?thesis .
  qed
qed

lemma finish_marks:
  assumes cm: "callback_marks mark f" and sk: "services_keep_unmarked mark svc"
    and u: "mark (services_state st) = None"
    and run: "finish svc (Some f) subject mr dn srcs st = (r, st')"
  shows "\<forall>e. mark (services_state st') = Some e \<longrightarrow> r = Inl e"
proof -
  obtain r1 st1 where n1: "notify (Some f) MsgFinalReport mr mr st = (r1, st1)"
    by (cases "notify (Some f) MsgFinalReport mr mr st")
  note m1 = notify_marks[OF cm u n1]
  show ?thesis
  proof (cases r1)
    case (Inl e)
    with run n1 have "r = Inl e" "st' = st1" by (auto simp: finish_def)
    with m1 Inl show ?thesis by simp
  next
    case (Inr u1)
    with m1 have "mark (services_state (put_log LogGeneratingReport st1)) = None" by simp
    moreover obtain r2 st2 where c: "call (ai_analyzer_synthesize_research svc subject
                                      (map round_to_data dn)) (put_log LogGeneratingReport st1)
                                   = (r2, st2)"
      by (cases "call (ai_analyzer_synthesize_research svc subject (map round_to_data dn))
                   (put_log LogGeneratingReport st1)")
    moreover from sk have "keeps_unmarked mark (ai_analyzer_synthesize_research svc subject
                                                  (map round_to_data dn))"
      by (simp add: services_keep_unmarked_def)
    ultimately have u2: "mark (services_state st2) = None"
      using call_unmarked by blast
    from run n1 Inr c have "services_state st' = services_state st2"
      by (cases r2) (auto simp: finish_def)
    with u2 show ?thesis by simp
  qed
qed

lemma notify_raising_at:
  "notify (Some (raising_at k e)) m c t st =
     (if checkpoint_of m = k then (Inl e, st) else (Inr (), st))"
  by (simp add: notify_def call_def raising_at_def)

lemma search_queries_passes:
  assumes "others_never_raise svc None" and "k \<noteq> QuerySearch"
  shows "\<exists>p st'. search_queries svc (Some (raising_at k e)) rps mr n qs acc srcs st = (Inr p, st')"
proof (induction qs arbitrary: acc srcs st)
  case Nil
  then show ?case by simp
next
  case (Cons q qs)
  from assms(1) have "never_raises (search_engine_search svc q rps)"
    by (simp add: others_never_raise_def)
  from call_never_raises[OF this, of st] obtain results st2 where
    c: "call (search_engine_search svc q rps) st = (Inr results, st2)" by blast
  from Cons[of "acc @ results" "srcs \<union> set (result_urls results)" st2] c assms(2)
  show ?case by (simp add: notify_raising_at)
qed

lemma search_queries_raises:
  "search_queries svc (Some (raising_at QuerySearch e)) rps mr n (q # qs) acc srcs st = (Inl e, st)"
  by (simp add: notify_raising_at)

lemma run_round_raises:
  assumes "others_never_raise svc None"
    and "k = QuerySearch \<or> k = ExtractionStart \<or> k = AnalysisStart"
  shows "\<exists>st'. run_round svc (Some (raising_at k e)) rps mr n q qs srcs st = (Inl e, st')"
proof (cases "k = QuerySearch")
  case True
  then show ?thesis
    by (simp add: run_round_def search_queries_raises del: search_queries.simps)
next
  case False
  from search_queries_passes[OF assms(1) False] obtain found srcs1 st1 where
    s: "search_queries svc (Some (raising_at k e)) rps mr n (q # qs) [] srcs st
          = (Inr (found, srcs1), st1)"
    by (metis surj_pair)
  show ?thesis
  proof (cases "k = ExtractionStart")
    case True
    with s show ?thesis
      by (simp add: run_round_def notify_raising_at del: search_queries.simps)
  next
    case not_extraction: False
    with False assms(2) have k: "k = AnalysisStart" by simp
    from assms(1) have "never_raises (content_extractor_extract_multiple svc
                                        (map url (take 10 found)))"
      by (simp add: others_never_raise_def)
    from call_never_raises[OF this, of "put_log (LogSearchDone (length found)) st1"]
    obtain extracted st3 where
      c: "call (content_extractor_extract_multiple svc (map url (take 10 found)))
            (put_log (LogSearchDone (length found)) st1) = (Inr extracted, st3)" by blast
    from s c k show ?thesis
      by (simp add: run_round_def notify_raising_at del: search_queries.simps)
  qed
qed

lemma run_round_passes:
  assumes "others_never_raise svc None"
    and "k = RoundStart \<or> k = SynthesisStart"
  shows "\<exists>p st'. run_round svc (Some (raising_at k e)) rps mr n q qs srcs st = (Inr p, st')"
proof -
  from assms(2) have k: "k \<noteq> QuerySearch" "k \<noteq> ExtractionStart" "k \<noteq> AnalysisStart" by auto
  from search_queries_passes[OF assms(1) k(1)] obtain found srcs1 st1 where
    s: "search_queries svc (Some (raising_at k e)) rps mr n (q # qs) [] srcs st
          = (Inr (found, srcs1), st1)"
    by (metis surj_pair)
  from assms(1) have "never_raises (content_extractor_extract_multiple svc
                                      (map url (take 10 found)))"
    by (simp add: others_never_raise_def)
  from call_never_raises[OF this, of "put_log (LogSearchDone (length found)) st1"]
  obtain extracted st3 where
    c: "call (content_extractor_extract_multiple svc (map url (take 10 found)))
          (put_log (LogSearchDone (length found)) st1) = (Inr extracted, st3)" by blast
  from assms(1) have "never_raises (ai_analyzer_analyze_search_results svc q found extracted)"
    by (simp add: others_never_raise_def)
  from call_never_raises[OF this, of "put_log (LogExtractDone (length extracted)) st3"]
  obtain an st5 where
    a: "call (ai_analyzer_analyze_search_results svc q found extracted)
          (put_log (LogExtractDone (length extracted)) st3) = (Inr an, st5)" by blast
  from s c a k show ?thesis
    by (simp add: run_round_def notify_raising_at del: search_queries.simps)
qed

lemma research_loop_raises:
  assumes "others_never_raise svc None"
    and "k \<noteq> SynthesisStart"
    and "k \<noteq> RoundStart \<longrightarrow>
           (\<exists>q qs st2. select_queries svc subject dn n (put_log (LogRound (n + 1)) st)
                          = (Inr (q # qs), st2))"
  shows "\<exists>st'. research_loop svc (Some (raising_at k e)) subject rps mr (n # rest) dn srcs st
                 = (Inl e, st')"
proof (cases "k = RoundStart")
  case True
  then show ?thesis by (simp add: notify_raising_at)
next
  case False
  with assms(3) obtain q qs st2 where
    sel: "select_queries svc subject dn n (put_log (LogRound (n + 1)) st) = (Inr (q # qs), st2)"
    by blast
  from False assms(2) have "k = QuerySearch \<or> k = ExtractionStart \<or> k = AnalysisStart"
    by (cases k) auto
  from run_round_raises[OF assms(1) this, of e rps mr n q qs srcs st2] obtain st3 where
    "run_round svc (Some (raising_at k e)) rps mr n q qs srcs st2 = (Inl e, st3)" by blast
  with sel False show ?thesis by (simp add: notify_raising_at)
qed

lemma research_loop_passes:
  assumes "others_never_raise svc None"
  shows "idxs = [] \<or> hd idxs = 0 \<or> dn \<noteq> [] \<Longrightarrow>
         \<exists>p st'. research_loop svc (Some (raising_at SynthesisStart e)) subject rps mr idxs dn srcs st
                   = (Inr p, st')"
proof (induction idxs arbitrary: dn srcs st)
  case Nil
  then show ?case by simp
next
  case (Cons n rest)
  obtain r st' where run: "research_loop svc (Some (raising_at SynthesisStart e)) subject rps mr
                             (n # rest) dn srcs st = (r, st')"
    by (cases "research_loop svc (Some (raising_at SynthesisStart e)) subject rps mr
                 (n # rest) dn srcs st")
  from run have "\<exists>p. r = Inr p"
  proof (cases rule: research_loop_cases)
    case (notify_raised e1)
    then show ?thesis by (simp add: notify_raising_at)
  next
    case (select_raised st1 e1)
    with select_queries_never_raises[of n dn svc subject st1] Cons.prems
    show ?thesis by simp
  next
    case (round_raised st1 st2 q qs e1)
    with run_round_passes[OF assms, of SynthesisStart e rps mr n q qs srcs st2]
    show ?thesis by simp
  next
    case (continue st1 st2 q qs rd srcs1 st3)
    with Cons.IH[of "dn @ [rd]" srcs1 st3] show ?thesis by simp
  qed simp_all
  with run show ?case by blast
qed

lemma finish_raises:
  "finish svc (Some (raising_at SynthesisStart e)) subject mr dn srcs st = (Inl e, st)"
  by (simp add: finish_def notify_raising_at)

lemma conduct_research_raises:
  assumes "others_never_raise svc None"
    and "k = SynthesisStart \<or> 1 \<le> max_rounds_or_default cfg max_rounds"
  shows "\<exists>st'. conduct_research cfg svc subject max_rounds rps (Some (raising_at k e)) st
                 = (Inl e, st')"
proof (cases "k = SynthesisStart")
  case True
  define mr where "mr = max_rounds_or_default cfg max_rounds"
  have "py_range mr = [] \<or> hd (py_range mr) = 0 \<or> ([]::research_round list) \<noteq> []"
    using hd_py_range[of mr] by (cases "1 \<le> mr") (auto simp: py_range_def)
  from research_loop_passes[OF assms(1) this] obtain dn srcs st1 where
    "research_loop svc (Some (raising_at SynthesisStart e)) subject
       (max_results_or_default cfg rps) mr (py_range mr) [] {}
       (put_log (LogStart subject mr) st) = (Inr (dn, srcs), st1)"
    by (metis surj_pair)
  with True show ?thesis
    by (simp add: conduct_research_def Let_def mr_def finish_raises)
next
  case False
  define mr where "mr = max_rounds_or_default cfg max_rounds"
  from False assms(2) have "1 \<le> mr" by (simp add: mr_def)
  then have range: "py_range mr = 0 # [1..mr - 1]"
    by (simp add: py_range_def upto_rec1)
  have sel: "k \<noteq> RoundStart \<longrightarrow>
           (\<exists>q qs st2. select_queries svc subject [] 0
                          (put_log (LogRound (0 + 1)) (put_log (LogStart subject mr) st))
                          = (Inr (q # qs), st2))"
    by (simp add: select_queries_def)
  from research_loop_raises[OF assms(1) False sel, of e "max_results_or_default cfg rps" mr
         "[1..mr - 1]" "{}"]
  obtain st1 where
    "research_loop svc (Some (raising_at k e)) subject (max_results_or_default cfg rps) mr
       (0 # [1..mr - 1]) [] {} (put_log (LogStart subject mr) st) = (Inl e, st1)"
    by blast
  then show ?thesis
    by (simp add: conduct_research_def Let_def mr_def[symmetric] range
             del: research_loop.simps)
qed

lemma search_queries_raises_at_query:
  assumes "others_never_raise svc None"
    and "\<forall>c t s. \<exists>s'. f (MsgSearchingQuery (n + 1) mr q) c t s = (Inl e, s')"
  shows "q \<in> set qs \<Longrightarrow>
         \<exists>e1 st1. search_queries svc (Some f) rps mr n qs acc srcs st = (Inl e1, st1)"
proof (induction qs arbitrary: acc srcs st)
  case Nil
  then show ?case by simp
next
  case (Cons q1 qs)
  obtain r1 st1 where n1: "notify (Some f) (MsgSearchingQuery (n + 1) mr q1) (n + 1) mr st
                             = (r1, st1)"
    by (cases "notify (Some f) (MsgSearchingQuery (n + 1) mr q1) (n + 1) mr st")
  show ?case
  proof (cases r1)
    case (Inl e1)
    with n1 show ?thesis by simp
  next
    case (Inr u)
    from assms(2) obtain s' where
      "f (MsgSearchingQuery (n + 1) mr q) (n + 1) mr (services_state st) = (Inl e, s')"
      by blast
    with n1 Inr have "q1 \<noteq> q" by (auto simp: notify_def call_def)
    with Cons.prems have mem: "q \<in> set qs" by simp
    from assms(1) have "never_raises (search_engine_search svc q1 rps)"
      by (simp add: others_never_raise_def)
    from call_never_raises[OF this, of st1] obtain results st2 where
      c: "call (search_engine_search svc q1 rps) st1 = (Inr results, st2)" by blast
    from Cons.IH[OF mem, of "acc @ results" "srcs \<union> set (result_urls results)" st2] n1 Inr c
    show ?thesis by simp
  qed
qed

lemma notify_returning:
  assumes "\<forall>message current_round all_rounds s. f message current_round all_rounds s = (Inr (), s)"
  shows "notify (Some f) m c t st = notify None m c t st"
  using assms by (simp add: notify_def call_def)

lemma search_queries_returning:
  assumes "\<forall>message current_round all_rounds s. f message current_round all_rounds s = (Inr (), s)"
  shows "search_queries svc (Some f) rps mr n qs acc srcs st
           = search_queries svc None rps mr n qs acc srcs st"
  by (induction qs arbitrary: acc srcs st)
     (simp_all add: notify_returning[OF assms] split: prod.splits sum.splits)

lemma run_round_returning:
  assumes "\<forall>message current_round all_rounds s. f message current_round all_rounds s = (Inr (), s)"
  shows "run_round svc (Some f) rps mr n q qs srcs st = run_round svc None rps mr n q qs srcs st"
  by (simp add: run_round_def notify_returning[OF assms] search_queries_returning[OF assms]
           del: search_queries.simps split: prod.splits sum.splits)

lemma research_loop_returning:
  assumes "\<forall>message current_round all_rounds s. f message current_round all_rounds s = (Inr (), s)"
  shows "research_loop svc (Some f) subject rps mr idxs dn srcs st
           = research_loop svc None subject rps mr idxs dn srcs st"
  by (induction idxs arbitrary: dn srcs st)
     (simp_all add: notify_returning[OF assms] run_round_returning[OF assms]
        split: prod.splits sum.splits list.splits if_splits)

lemma conduct_research_returning:
  assumes "\<forall>message current_round all_rounds s. f message current_round all_rounds s = (Inr (), s)"
  shows "conduct_research cfg svc subject max_rounds rps (Some f) st
           = conduct_research cfg svc subject max_rounds rps None st"
  by (simp add: conduct_research_def Let_def finish_def notify_returning[OF assms]
        research_loop_returning[OF assms] split: prod.splits sum.splits)

lemma conduct_research_marks:
  assumes "callback_marks mark f"
    and "services_keep_unmarked mark svc"
    and "mark (services_state st) = None"
    and "conduct_research cfg svc subject max_rounds results_per_search (Some f) st = (r, st')"
    and "mark (services_state st') = Some e"
  shows "r = Inl e"
proof -
  define mr where "mr = max_rounds_or_default cfg max_rounds"
  define rps1 where "rps1 = max_results_or_default cfg results_per_search"
  define st0 where "st0 = put_log (LogStart subject mr) st"
  have u0: "mark (services_state st0) = None"
    using assms(3) by (simp add: st0_def)
  obtain r1 st1 where loop:
    "research_loop svc (Some f) subject rps1 mr (py_range mr) [] {} st0 = (r1, st1)"
    by (cases "research_loop svc (Some f) subject rps1 mr (py_range mr) [] {} st0")
  note m1 = research_loop_marks[OF assms(1,2) u0 loop]
  show ?thesis
  proof (cases r1)
    case (Inl e1)
    with assms(4) loop have "r = Inl e1" "st' = st1"
      by (auto simp: conduct_research_def Let_def mr_def rps1_def st0_def)
    with m1 Inl assms(5) show ?thesis by simp
  next
    case (Inr p)
    obtain dn srcs where p: "p = (dn, srcs)" by (cases p)
    from m1 Inr have u1: "mark (services_state st1) = None"
      by (cases "mark (services_state st1)") auto
    have "finish svc (Some f) subject mr dn srcs st1 = (r, st')"
      using assms(4) loop Inr p
      by (simp add: conduct_research_def Let_def mr_def rps1_def st0_def)
    from finish_marks[OF assms(1,2) u1 this] assms(5) show ?thesis by simp
  qed
qed

text \<open>
  C3 (as amended). The orchestrator calls the progress callback at each of its five
  checkpoints (round start, search of a query, extraction start, analysis start, synthesis
  start) without a handler, so an exception of the callback is not isolated:
  \<^item> whatever the callback and the collaborators are, if the callback raises at any of its
    invocations, \<open>conduct_research\<close> ends with that very exception and returns no result
    (the invocation that raised is seen through a mark in the state, which the callback
    sets exactly when it raises and which no collaborator sets);
  \<^item> with collaborators that never raise, a callback that raises at one checkpoint makes
    \<open>conduct_research\<close> end with its exception, for each of the five checkpoints (the four
    checkpoints of a round are reached when there is at least one round);
  \<^item> the same holds in every iteration of the loop, not only the first, as soon as the
    iteration has queries to search, and at the synthesis after any rounds;
  \<^item> a callback that raises at the search of one query of a round ends the searches of
    that round with an exception, wherever the query is in the list;
  \<^item> a callback that returns at every invocation and leaves the state of the
    collaborators as it is gives the run that no callback gives.
\<close>

theorem callback_exception_propagates:
  "(callback_marks mark f \<and> services_keep_unmarked mark svc \<and>
    mark (services_state st) = None \<and>
    conduct_research cfg svc subject max_rounds results_per_search (Some f) st = (r, st') \<and>
    mark (services_state st') = Some e
    \<longrightarrow> r = Inl e) \<and>
   (others_never_raise svc None \<longrightarrow>
      (\<forall>k. k = SynthesisStart \<or> 1 \<le> max_rounds_or_default cfg max_rounds \<longrightarrow>
           (\<exists>st1. conduct_research cfg svc subject max_rounds results_per_search
                    (Some (raising_at k e)) st = (Inl e, st1))) \<and>
      (\<forall>k. k \<noteq> SynthesisStart \<and>
           (k \<noteq> RoundStart \<longrightarrow>
              (\<exists>q qs st2. select_queries svc subject done_rounds round_num
                             (put_log (LogRound (round_num + 1)) ost) = (Inr (q # qs), st2)))
           \<longrightarrow> (\<exists>st1. research_loop svc (Some (raising_at k e)) subject rps mr (round_num # rest)
                        done_rounds sources ost = (Inl e, st1))) \<and>
      (\<forall>query \<in> set qs.
           (\<forall>c t s. \<exists>s'. f (MsgSearchingQuery (round_num + 1) mr query) c t s = (Inl e, s'))
           \<longrightarrow> (\<exists>e1 st1. search_queries svc (Some f) rps mr round_num qs found sources ost
                           = (Inl e1, st1)))) \<and>
   finish svc (Some (raising_at SynthesisStart e)) subject mr done_rounds sources ost
     = (Inl e, ost) \<and>
   ((\<forall>message current_round all_rounds s.
        f message current_round all_rounds s = (Inr (), s))
    \<longrightarrow> conduct_research cfg svc subject max_rounds results_per_search (Some f) st
          = conduct_research cfg svc subject max_rounds results_per_search None st)"
proof (intro conjI impI allI ballI)
  assume "callback_marks mark f \<and> services_keep_unmarked mark svc \<and>
    mark (services_state st) = None \<and>
    conduct_research cfg svc subject max_rounds results_per_search (Some f) st = (r, st') \<and>
    mark (services_state st') = Some e"
  then show "r = Inl e"
    using conduct_research_marks[of mark f svc st cfg subject max_rounds results_per_search r st' e]
    by blast
next
  fix k
  assume "others_never_raise svc None"
    and "k = SynthesisStart \<or> 1 \<le> max_rounds_or_default cfg max_rounds"
  then show "\<exists>st1. conduct_research cfg svc subject max_rounds results_per_search
                    (Some (raising_at k e)) st = (Inl e, st1)"
    by (rule conduct_research_raises)
next
  fix k
  assume "others_never_raise svc None"
    and "k \<noteq> SynthesisStart \<and>
           (k \<noteq> RoundStart \<longrightarrow>
              (\<exists>q qs st2. select_queries svc subject done_rounds round_num
                             (put_log (LogRound (round_num + 1)) ost) = (Inr (q # qs), st2)))"
  then show "\<exists>st1. research_loop svc (Some (raising_at k e)) subject rps mr (round_num # rest)
                        done_rounds sources ost = (Inl e, st1)"
    using research_loop_raises[of svc k subject done_rounds round_num ost e rps mr rest sources]
    by blast
next
  fix query
  assume "others_never_raise svc None" and "query \<in> set qs"
    and "\<forall>c t s. \<exists>s'. f (MsgSearchingQuery (round_num + 1) mr query) c t s = (Inl e, s')"
  then show "\<exists>e1 st1. search_queries svc (Some f) rps mr round_num qs found sources ost
                           = (Inl e1, st1)"
    using search_queries_raises_at_query[of svc f round_num mr query e qs rps found sources ost]
    by blast
next
  show "finish svc (Some (raising_at SynthesisStart e)) subject mr done_rounds sources ost
          = (Inl e, ost)"
    by (rule finish_raises)
next
  assume "\<forall>message current_round all_rounds s.
            f message current_round all_rounds s = (Inr (), s)"
  then show "conduct_research cfg svc subject max_rounds results_per_search (Some f) st
          = conduct_research cfg svc subject max_rounds results_per_search None st"
    by (rule conduct_research_returning)
qed

theorem callback_exception_propagates_witness:
  "conduct_research default_settings plain_services (ascii ''topic'') (Some 2) None
     (Some fails_at_extraction) \<lparr>services_state = None, logged = []\<rparr>
   = (Inl (OtherException (ascii ''ui closed'')),
      \<lparr>services_state = Some (OtherException (ascii ''ui closed'')),
       logged = [LogStart (ascii ''topic'') 2, LogRound 1, LogSearchDone 1]\<rparr>) \<and>
   fst (conduct_research default_settings plain_services (ascii ''topic'') (Some 2) None
          (Some (raising_at RoundStart (OtherException (ascii ''ui closed''))))
          \<lparr>services_state = None, logged = []\<rparr>) = Inl (OtherException (ascii ''ui closed'')) \<and>
   fst (conduct_research default_settings plain_services (ascii ''topic'') (Some 2) None
          (Some (raising_at QuerySearch (OtherException (ascii ''ui closed''))))
          \<lparr>services_state = None, logged = []\<rparr>) = Inl (OtherException (ascii ''ui closed'')) \<and>
   fst (conduct_research default_settings plain_services (ascii ''topic'') (Some 2) None
          (Some (raising_at ExtractionStart (OtherException (ascii ''ui closed''))))
          \<lparr>services_state = None, logged = []\<rparr>) = Inl (OtherException (ascii ''ui closed'')) \<and>
   fst (conduct_research default_settings plain_services (ascii ''topic'') (Some 2) None
          (Some (raising_at AnalysisStart (OtherException (ascii ''ui closed''))))
          \<lparr>services_state = None, logged = []\<rparr>) = Inl (OtherException (ascii ''ui closed'')) \<and>
   fst (conduct_research default_settings plain_services (ascii ''topic'') (Some 2) None
          (Some (raising_at SynthesisStart (OtherException (ascii ''ui closed''))))
          \<lparr>services_state = None, logged = []\<rparr>) = Inl (OtherException (ascii ''ui closed'')) \<and>
   fst (research_loop (demo_services never_gaps)
          (Some (raising_at AnalysisStart (OtherException (ascii ''ui closed''))))
          (ascii ''topic'') 5 3 [1, 2] (rounds demo_result) {ascii ''a.com''} new_orchestrator)
     = Inl (OtherException (ascii ''ui closed'')) \<and>
   fst (search_queries (demo_services never_gaps)
          (Some (\<lambda>message current_round all_rounds s.
                   if message = MsgSearchingQuery 2 3 (ascii ''b'')
                   then (Inl (OtherException (ascii ''ui closed'')), s) else (Inr (), s)))
          5 3 1 [ascii ''a'', ascii ''b''] [] {ascii ''a.com''} new_orchestrator)
     = Inl (OtherException (ascii ''ui closed'')) \<and>
   fst (conduct_research default_settings (demo_services never_gaps) (ascii ''topic'') (Some 3)
          None (Some silent_callback) new_orchestrator) = Inr demo_result"
proof -
  let ?E = "OtherException (ascii ''ui closed'')"
  let ?st = "\<lparr>services_state = None :: exn option, logged = []\<rparr>"
  let ?run = "conduct_research default_settings plain_services (ascii ''topic'') (Some 2) None
                (Some fails_at_extraction) ?st"
  let ?at_b = "\<lambda>message (current_round::int) (all_rounds::int) (s::nat).
                 if message = MsgSearchingQuery 2 3 (ascii ''b'')
                 then (Inl ?E :: exn + unit, s) else (Inr (), s)"
  note plain = callback_exception_propagates[where mark = "\<lambda>s. s" and f = fails_at_extraction
      and svc = plain_services and st = ?st and cfg = default_settings
      and subject = "ascii ''topic''" and max_rounds = "Some 2" and results_per_search = None
      and r = "fst ?run" and st' = "snd ?run" and e = ?E and done_rounds = "[]"
      and round_num = 0 and ost = ?st and rps = 5 and mr = 2 and rest = "[1]"
      and sources = "{}" and qs = "[]" and found = "[]"]
  note demo = callback_exception_propagates[where mark = "\<lambda>s. None" and f = ?at_b
      and svc = "demo_services never_gaps" and st = new_orchestrator and cfg = default_settings
      and subject = "ascii ''topic''" and max_rounds = "Some 3" and results_per_search = None
      and r = "Inl ?E" and st' = new_orchestrator and e = ?E
      and done_rounds = "rounds demo_result"
      and round_num = 1 and ost = new_orchestrator and rps = 5 and mr = 3 and rest = "[2]"
      and sources = "{ascii ''a.com''}" and qs = "[ascii ''a'', ascii ''b'']" and found = "[]"]
  note silent = callback_exception_propagates[where mark = "\<lambda>s. None" and f = silent_callback
      and svc = "demo_services never_gaps" and st = new_orchestrator and cfg = default_settings
      and subject = "ascii ''topic''" and max_rounds = "Some 3" and results_per_search = None
      and r = "Inl ?E" and st' = new_orchestrator and e = ?E and done_rounds = "[]"
      and round_num = 0 and ost = new_orchestrator and rps = 5 and mr = 3 and rest = "[]"
      and sources = "{}" and qs = "[]" and found = "[]"]
  have cm: "callback_marks (\<lambda>s. s) fails_at_extraction"
    by (auto simp: callback_marks_def fails_at_extraction_def split: progress_message.splits)
  have sk: "services_keep_unmarked (\<lambda>s. s) plain_services"
    by (simp add: services_keep_unmarked_def keeps_unmarked_def plain_services_def)
  have final: "snd ?run
      = \<lparr>services_state = Some ?E,
         logged = [LogStart (ascii ''topic'') 2, LogRound 1, LogSearchDone 1]\<rparr>"
    by (simp add: demo_eval plain_services_def fails_at_extraction_def)
  have run: "?run = (fst ?run, snd ?run)" by simp
  from plain cm sk run final have "fst ?run = Inl ?E" by simp
  with final have w1: "?run = (Inl ?E,
      \<lparr>services_state = Some ?E,
       logged = [LogStart (ascii ''topic'') 2, LogRound 1, LogSearchDone 1]\<rparr>)"
    by (simp add: prod_eq_iff)
  have quiet: "others_never_raise plain_services None"
    by (simp add: others_never_raise_def never_raises_def plain_services_def)
  have rounds: "1 \<le> max_rounds_or_default default_settings (Some 2)"
    by (simp add: max_rounds_or_default_def)
  from plain quiet have every: "\<forall>k. k = SynthesisStart
        \<or> 1 \<le> max_rounds_or_default default_settings (Some 2) \<longrightarrow>
      (\<exists>st1. conduct_research default_settings plain_services (ascii ''topic'') (Some 2) None
               (Some (raising_at k ?E)) ?st = (Inl ?E, st1))"
    by blast
  have w2: "fst (conduct_research default_settings plain_services (ascii ''topic'') (Some 2)
                   None (Some (raising_at k ?E)) ?st) = Inl ?E" for k
    using every[rule_format, of k] rounds by auto
  have quiet_demo: "others_never_raise (demo_services never_gaps) None"
    by (simp add: others_never_raise_def never_raises_def demo_services_def)
  have sel: "select_queries (demo_services never_gaps) (ascii ''topic'') (rounds demo_result) 1
               (put_log (LogRound (1 + 1)) new_orchestrator)
             = (Inr [ascii ''more''], put_log (LogRound (1 + 1)) new_orchestrator)"
    by (simp add: select_queries_def generate_queries_def call_def demo_services_def
          demo_result_def put_log_def new_orchestrator_def)
  from demo quiet_demo have "\<forall>k. k \<noteq> SynthesisStart \<and>
           (k \<noteq> RoundStart \<longrightarrow>
              (\<exists>q qs st2. select_queries (demo_services never_gaps) (ascii ''topic'')
                             (rounds demo_result) 1
                             (put_log (LogRound (1 + 1)) new_orchestrator) = (Inr (q # qs), st2)))
           \<longrightarrow> (\<exists>st1. research_loop (demo_services never_gaps) (Some (raising_at k ?E))
                        (ascii ''topic'') 5 3 [1, 2] (rounds demo_result) {ascii ''a.com''}
                        new_orchestrator = (Inl ?E, st1))"
    by blast
  from this[rule_format, of AnalysisStart] sel
  have w3: "fst (research_loop (demo_services never_gaps) (Some (raising_at AnalysisStart ?E))
                   (ascii ''topic'') 5 3 [1, 2] (rounds demo_result) {ascii ''a.com''}
                   new_orchestrator) = Inl ?E"
    by auto
  from demo quiet_demo have "\<forall>query \<in> set [ascii ''a'', ascii ''b''].
           (\<forall>c t s. \<exists>s'. ?at_b (MsgSearchingQuery (1 + 1) 3 query) c t s = (Inl ?E, s'))
           \<longrightarrow> (\<exists>e1 st1. search_queries (demo_services never_gaps) (Some ?at_b) 5 3 1
                           [ascii ''a'', ascii ''b''] [] {ascii ''a.com''} new_orchestrator
                           = (Inl e1, st1))"
    by blast
  from this[rule_format, of "ascii ''b''"]
  have raised: "\<exists>e1 st1. search_queries (demo_services never_gaps) (Some ?at_b) 5 3 1
                           [ascii ''a'', ascii ''b''] [] {ascii ''a.com''} new_orchestrator
                           = (Inl e1, st1)"
    by simp
  have w4: "fst (search_queries (demo_services never_gaps) (Some ?at_b) 5 3 1
                   [ascii ''a'', ascii ''b''] [] {ascii ''a.com''} new_orchestrator) = Inl ?E"
    using raised
    by (simp add: notify_def call_def demo_services_def new_orchestrator_def ascii_def)
  have "\<forall>message current_round all_rounds s.
          silent_callback message current_round all_rounds s = (Inr (), s)"
    by (simp add: silent_callback_def)
  with silent have "conduct_research default_settings (demo_services never_gaps)
                      (ascii ''topic'') (Some 3) None (Some silent_callback) new_orchestrator
                  = conduct_research default_settings (demo_services never_gaps)
                      (ascii ''topic'') (Some 3) None None new_orchestrator"
    by blast
  with demo_run_one_round
  have w5: "fst (conduct_research default_settings (demo_services never_gaps) (ascii ''topic'')
                   (Some 3) None (Some silent_callback) new_orchestrator) = Inr demo_result"
    by simp
  from w1 w2 w3 w4 w5 show ?thesis by simp
qed

text \<open>
  The claim as stated fails: with a callback that raises, the run that the same
  collaborators complete without a callback is aborted at the first checkpoint.
\<close>

theorem callback_exception_aborts_research:
  "fst (conduct_research default_settings (demo_services never_gaps) (ascii ''topic'') (Some 3)
          None (Some broken_callback) new_orchestrator)
     = Inl (OtherException (ascii ''ui closed'')) \<and>
   fst (conduct_research default_settings (demo_services never_gaps) (ascii ''topic'') (Some 3)
          None None new_orchestrator) = Inr demo_result"
proof -
  have "fst (conduct_research default_settings (demo_services never_gaps) (ascii ''topic'')
          (Some 3) None (Some broken_callback) new_orchestrator)
     = Inl (OtherException (ascii ''ui closed''))"
    by (simp add: demo_eval broken_callback_def)
  with demo_run_one_round show ?thesis by simp
qed

end
